theory Spec2Isabelle
  imports Main "HOL-Library.Sublist" "HOL-Library.AList" "HOL-Library.Code_Target_Nat"
begin

section \<open>String helpers of the host language\<close>

text \<open>
  \<^verbatim>\<open>s.includes(sub)\<close>: \<open>sub\<close> occurs in \<open>s\<close> as a contiguous substring.
\<close>

fun str_includes :: "string \<Rightarrow> string \<Rightarrow> bool" where
  "str_includes [] sub = (sub = [])"
| "str_includes (c # cs) sub = (prefix sub (c # cs) \<or> str_includes cs sub)"

text \<open>
  \<^verbatim>\<open>s.split(':')\<close>: the pieces between the separators; a string with no separator
  is one piece, the empty string is one empty piece.
\<close>

fun split :: "char \<Rightarrow> string \<Rightarrow> string list" where
  "split sep [] = [[]]"
| "split sep (c # cs) =
     (if c = sep then [] # split sep cs
      else (case split sep cs of [] \<Rightarrow> [[c]] | w # ws \<Rightarrow> (c # w) # ws))"

text \<open>\<^verbatim>\<open>parts.join(':')\<close>.\<close>

fun join :: "string \<Rightarrow> string list \<Rightarrow> string" where
  "join sep [] = []"
| "join sep [w] = w"
| "join sep (w # ws) = w @ sep @ join sep ws"

text \<open>
  \<^verbatim>\<open>s.replace(pat, '')\<close> with a string pattern: the first occurrence of \<open>pat\<close> is
  removed, a string without the pattern is returned as it is.
\<close>

fun replace_first :: "string \<Rightarrow> string \<Rightarrow> string" where
  "replace_first pat [] = []"
| "replace_first pat (c # cs) =
     (if prefix pat (c # cs) then drop (length pat) (c # cs)
      else c # replace_first pat cs)"

text \<open>
  \<^verbatim>\<open>parseInt(s)\<close> with no radix given: leading white space is skipped, a sign is
  read, a prefix \<^verbatim>\<open>0x\<close> or \<^verbatim>\<open>0X\<close> selects radix 16, and the value is that of the
  longest run of digits of the radix that follows; \<open>None\<close> (NaN) when there is no such
  digit. The value is exact; the host language rounds it to a double above \<open>2^53\<close>.
\<close>

definition is_space :: "char \<Rightarrow> bool" where
  "is_space c = ((of_char c :: nat) \<in> {9, 10, 11, 12, 13, 32, 160})"

definition digit_val :: "nat \<Rightarrow> char \<Rightarrow> nat option" where
  "digit_val radix c =
     (let n = of_char c :: nat;
          d = (if 48 \<le> n \<and> n \<le> 57 then Some (n - 48)
               else if 97 \<le> n \<and> n \<le> 122 then Some (n - 87)
               else if 65 \<le> n \<and> n \<le> 90 then Some (n - 55)
               else None)
      in case d of None \<Rightarrow> None | Some v \<Rightarrow> if v < radix then Some v else None)"

fun digits_acc :: "nat \<Rightarrow> nat \<Rightarrow> string \<Rightarrow> nat" where
  "digits_acc radix acc [] = acc"
| "digits_acc radix acc (c # cs) =
     (case digit_val radix c of
        None \<Rightarrow> acc
      | Some d \<Rightarrow> digits_acc radix (radix * acc + d) cs)"

definition parse_digits :: "nat \<Rightarrow> string \<Rightarrow> nat option" where
  "parse_digits radix s =
     (case s of [] \<Rightarrow> None
      | c # cs \<Rightarrow> (case digit_val radix c of
                    None \<Rightarrow> None
                  | Some d \<Rightarrow> Some (digits_acc radix d cs)))"

definition parseInt :: "string \<Rightarrow> int option" where
  "parseInt s =
     (let trimmed = dropWhile is_space s;
          negative = (case trimmed of [] \<Rightarrow> False | c # cs \<Rightarrow> c = CHR ''-'');
          unsigned = (case trimmed of [] \<Rightarrow> []
                      | c # cs \<Rightarrow> if c = CHR ''-'' \<or> c = CHR ''+'' then cs else trimmed);
          hex = (case unsigned of
                   c1 # c2 # cs \<Rightarrow> c1 = CHR ''0'' \<and> (c2 = CHR ''x'' \<or> c2 = CHR ''X'')
                 | _ \<Rightarrow> False);
          magnitude = (if hex then parse_digits 16 (drop 2 unsigned) else parse_digits 10 unsigned)
      in map_option (\<lambda>n. if negative then - int n else int n) magnitude)"

text \<open>\<^verbatim>\<open>n.toString()\<close> of a non-negative integer.\<close>

definition digit_char :: "nat \<Rightarrow> char" where
  "digit_char d = char_of (48 + d)"

fun toString :: "nat \<Rightarrow> string" where
  "toString n = (if n < 10 then [digit_char n] else toString (n div 10) @ [digit_char (n mod 10)])"

declare toString.simps [simp del]

section \<open>The remote cache: the store behind the Tiered Key Store\<close>

text \<open>
  Modelled from the spec: the Redis client library and \<^verbatim>\<open>rediscache.client\<close> are not part
  of the sources; the spec (4.1, 6) gives the boundary: scalar get/set-with-ttl, field-map
  get/set, delete, key enumeration by prefix and key-shape introspection, with the store
  refusing a scalar operation against a map-shaped key and a field operation against a
  scalar key (the \<^verbatim>\<open>WRONGTYPE\<close> reply). Deleting a key, asking whether it exists,
  asking for its shape and enumerating keys work on a key of either shape. An unreachable
  server fails every command with an error whose message does not contain
  \<^verbatim>\<open>WRONGTYPE\<close>.

  A physical key holds a scalar (a string) or a field map, with an optional expiry in
  seconds. Every command sent to the server is appended to \<open>log\<close>.

  The cache serialises every value with \<^verbatim>\<open>JSON.stringify\<close> and reads it back with
  \<^verbatim>\<open>JSON.parse\<close>; the model keeps the JSON value itself in place of its text. The
  values this subsystem writes are strings (markers, timestamps) and instance records.
\<close>

datatype integration = WHATSAPP_BAILEYS | WHATSAPP_BUSINESS | EVOLUTION

text \<open>
  The instance record that travels between the tiers (\<open>InstanceDto\<close> and the
  \<open>instanceData\<close> objects built for persisting). An absent (\<^verbatim>\<open>undefined\<close>) text field
  is the empty string: both are falsy wherever the code tests them.
\<close>

record instance_data =
  instanceId :: string
  instanceName :: string
  integration :: integration
  token :: string
  number :: string
  businessId :: string
  connectionStatus :: string
  ownerJid :: string
  profileName :: string
  profilePicUrl :: string

datatype payload = PText string | PData instance_data

datatype rvalue = RString payload | RHash "(string \<times> payload) list"

record entry =
  val :: rvalue
  expiry :: "nat option"

datatype redis_error = WRONGTYPE | ConnectionError

datatype key_type = TNone | TString | THash

datatype command =
    CGet string
  | CSet string payload
  | CSetEx string nat payload
  | CHGet string string
  | CHSet string string payload
  | CHDel string string
  | CExists string
  | CType string
  | CDel string
  | CDelAll "string list"
  | CScan string

record redis =
  store :: "(string \<times> entry) list"
  up :: bool
  log :: "command list"

definition sent :: "redis \<Rightarrow> command \<Rightarrow> redis" where
  "sent r c = r\<lparr>log := log r @ [c]\<rparr>"

definition client_get :: "redis \<Rightarrow> string \<Rightarrow> (redis_error + payload option) \<times> redis" where
  "client_get r k =
     (let r1 = sent r (CGet k) in
      if \<not> up r then (Inl ConnectionError, r1)
      else (case map_of (store r) k of
              None \<Rightarrow> (Inr None, r1)
            | Some e \<Rightarrow> (case val e of
                          RString s \<Rightarrow> (Inr (Some s), r1)
                        | RHash h \<Rightarrow> (Inl WRONGTYPE, r1))))"

definition write_string :: "redis \<Rightarrow> command \<Rightarrow> string \<Rightarrow> payload \<Rightarrow> nat option
    \<Rightarrow> (redis_error + unit) \<times> redis" where
  "write_string r c k v ex =
     (let r1 = sent r c in
      if \<not> up r then (Inl ConnectionError, r1)
      else (let r2 = r1\<lparr>store := AList.update k \<lparr>val = RString v, expiry = ex\<rparr> (store r)\<rparr>
            in case map_of (store r) k of
                 None \<Rightarrow> (Inr (), r2)
               | Some e \<Rightarrow> (case val e of
                             RString s \<Rightarrow> (Inr (), r2)
                           | RHash h \<Rightarrow> (Inl WRONGTYPE, r1))))"

definition client_set :: "redis \<Rightarrow> string \<Rightarrow> payload \<Rightarrow> (redis_error + unit) \<times> redis" where
  "client_set r k v = write_string r (CSet k v) k v None"

definition client_setEx :: "redis \<Rightarrow> string \<Rightarrow> nat \<Rightarrow> payload
    \<Rightarrow> (redis_error + unit) \<times> redis" where
  "client_setEx r k seconds v = write_string r (CSetEx k seconds v) k v (Some seconds)"

definition client_hGet :: "redis \<Rightarrow> string \<Rightarrow> string
    \<Rightarrow> (redis_error + payload option) \<times> redis" where
  "client_hGet r k f =
     (let r1 = sent r (CHGet k f) in
      if \<not> up r then (Inl ConnectionError, r1)
      else (case map_of (store r) k of
              None \<Rightarrow> (Inr None, r1)
            | Some e \<Rightarrow> (case val e of
                          RString s \<Rightarrow> (Inl WRONGTYPE, r1)
                        | RHash h \<Rightarrow> (Inr (map_of h f), r1))))"

definition client_hSet :: "redis \<Rightarrow> string \<Rightarrow> string \<Rightarrow> payload
    \<Rightarrow> (redis_error + unit) \<times> redis" where
  "client_hSet r k f v =
     (let r1 = sent r (CHSet k f v) in
      if \<not> up r then (Inl ConnectionError, r1)
      else (case map_of (store r) k of
              None \<Rightarrow>
                (Inr (), r1\<lparr>store := AList.update k \<lparr>val = RHash [(f, v)], expiry = None\<rparr> (store r)\<rparr>)
            | Some e \<Rightarrow> (case val e of
                          RString s \<Rightarrow> (Inl WRONGTYPE, r1)
                        | RHash h \<Rightarrow>
                            (Inr (), r1\<lparr>store :=
                               AList.update k (e\<lparr>val := RHash (AList.update f v h)\<rparr>) (store r)\<rparr>))))"

definition client_type :: "redis \<Rightarrow> string \<Rightarrow> (redis_error + key_type) \<times> redis" where
  "client_type r k =
     (let r1 = sent r (CType k) in
      if \<not> up r then (Inl ConnectionError, r1)
      else (case map_of (store r) k of
              None \<Rightarrow> (Inr TNone, r1)
            | Some e \<Rightarrow> (case val e of
                          RString s \<Rightarrow> (Inr TString, r1)
                        | RHash h \<Rightarrow> (Inr THash, r1))))"

definition client_del :: "redis \<Rightarrow> string \<Rightarrow> (redis_error + nat) \<times> redis" where
  "client_del r k =
     (let r1 = sent r (CDel k) in
      if \<not> up r then (Inl ConnectionError, r1)
      else (case map_of (store r) k of
              None \<Rightarrow> (Inr 0, r1)
            | Some e \<Rightarrow> (Inr 1, r1\<lparr>store := AList.delete k (store r)\<rparr>)))"

text \<open>
  \<^verbatim>\<open>hDel(key, field)\<close>: the number of fields removed; a field map that loses its last
  field is removed with its key.
\<close>

definition client_hDel :: "redis \<Rightarrow> string \<Rightarrow> string \<Rightarrow> (redis_error + nat) \<times> redis" where
  "client_hDel r k f =
     (let r1 = sent r (CHDel k f) in
      if \<not> up r then (Inl ConnectionError, r1)
      else (case map_of (store r) k of
              None \<Rightarrow> (Inr 0, r1)
            | Some e \<Rightarrow> (case val e of
                          RString s \<Rightarrow> (Inl WRONGTYPE, r1)
                        | RHash h \<Rightarrow>
                            if map_of h f = None then (Inr 0, r1)
                            else if AList.delete f h = []
                            then (Inr 1, r1\<lparr>store := AList.delete k (store r)\<rparr>)
                            else (Inr 1, r1\<lparr>store :=
                                    AList.update k (e\<lparr>val := RHash (AList.delete f h)\<rparr>) (store r)\<rparr>))))"

definition client_exists :: "redis \<Rightarrow> string \<Rightarrow> (redis_error + nat) \<times> redis" where
  "client_exists r k =
     (let r1 = sent r (CExists k) in
      if \<not> up r then (Inl ConnectionError, r1)
      else (Inr (if map_of (store r) k = None then 0 else 1), r1))"

text \<open>\<^verbatim>\<open>del(keys)\<close> with a list of keys: one command, the number of keys removed.\<close>

definition client_del_all :: "redis \<Rightarrow> string list \<Rightarrow> (redis_error + nat) \<times> redis" where
  "client_del_all r ks =
     (let r1 = sent r (CDelAll ks) in
      if \<not> up r then (Inl ConnectionError, r1)
      else (Inr (length (filter (\<lambda>k. map_of (store r) k \<noteq> None) (remdups ks))),
            r1\<lparr>store := filter (\<lambda>p. fst p \<notin> set ks) (store r)\<rparr>))"

text \<open>
  \<^verbatim>\<open>scanIterator({ MATCH: pre + '*' })\<close>: the keys that start with \<open>pre\<close>, in the order
  the store holds them.
\<close>

definition client_scan :: "redis \<Rightarrow> string \<Rightarrow> (redis_error + string list) \<times> redis" where
  "client_scan r pre =
     (let r1 = sent r (CScan pre) in
      if \<not> up r then (Inl ConnectionError, r1)
      else (Inr (filter (prefix pre) (map fst (store r))), r1))"

section \<open>RedisCache: the Tiered Key Store\<close>

record cache_conf =
  PREFIX_KEY :: string
  module :: string
  TTL :: nat

definition buildKey :: "cache_conf \<Rightarrow> string \<Rightarrow> string" where
  "buildKey conf key = PREFIX_KEY conf @ '':'' @ module conf @ '':'' @ key"

datatype operation = OpGet | OpHGet | OpSet | OpHSet

text \<open>\<^verbatim>\<open>ttl || this.conf?.TTL\<close>: an absent or zero \<open>ttl\<close> falls back to the configured one.\<close>

definition ttl_or_default :: "cache_conf \<Rightarrow> nat option \<Rightarrow> nat" where
  "ttl_or_default conf ttl =
     (case ttl of None \<Rightarrow> TTL conf | Some n \<Rightarrow> if n = 0 then TTL conf else n)"

text \<open>
  The write both \<open>set\<close> and the repair path issue: a plain \<^verbatim>\<open>set\<close> when \<open>ttl\<close> is \<open>0\<close>,
  \<^verbatim>\<open>setEx\<close> otherwise.
\<close>

definition write_value :: "cache_conf \<Rightarrow> redis \<Rightarrow> string \<Rightarrow> payload \<Rightarrow> nat option
    \<Rightarrow> (redis_error + unit) \<times> redis" where
  "write_value conf r fullKey serializedValue ttl =
     (if ttl = Some 0 then client_set r fullKey serializedValue
      else client_setEx r fullKey (ttl_or_default conf ttl) serializedValue)"

text \<open>
  \<open>handleWrongTypeError\<close> always resolves to \<^verbatim>\<open>null\<close>, so the model returns the store only.
  Any error inside it is caught and logged.
\<close>

definition handleWrongTypeError :: "cache_conf \<Rightarrow> redis \<Rightarrow> string \<Rightarrow> operation
    \<Rightarrow> string option \<Rightarrow> payload option \<Rightarrow> nat option \<Rightarrow> redis" where
  "handleWrongTypeError conf r key operation field value ttl =
     (let fullKey = buildKey conf key in
      case client_type r fullKey of
        (Inl e, r1) \<Rightarrow> r1
      | (Inr keyType, r1) \<Rightarrow>
          if keyType \<noteq> TNone then
            (case client_del r1 fullKey of
               (Inl e, r2) \<Rightarrow> r2
             | (Inr n, r2) \<Rightarrow>
                 (case operation of
                    OpGet \<Rightarrow> r2
                  | OpHGet \<Rightarrow> r2
                  | OpSet \<Rightarrow>
                      (case value of
                         None \<Rightarrow> r2
                       | Some v \<Rightarrow> snd (write_value conf r2 fullKey v ttl))
                  | OpHSet \<Rightarrow>
                      (case (value, field) of
                         (Some v, Some f) \<Rightarrow> snd (client_hSet r2 fullKey f v)
                       | _ \<Rightarrow> r2)))
          else r1)"

text \<open>
  \<^verbatim>\<open>result ? JSON.parse(result) : null\<close>: the text \<^verbatim>\<open>JSON.stringify\<close> wrote is never
  empty, so every scalar found is parsed and returned.
\<close>

definition get_cache :: "cache_conf \<Rightarrow> redis \<Rightarrow> string \<Rightarrow> payload option \<times> redis" where
  "get_cache conf r key =
     (case client_get r (buildKey conf key) of
        (Inr result, r1) \<Rightarrow> (result, r1)
      | (Inl WRONGTYPE, r1) \<Rightarrow> (None, handleWrongTypeError conf r1 key OpGet None None None)
      | (Inl e, r1) \<Rightarrow> (None, r1))"

definition hGet :: "cache_conf \<Rightarrow> redis \<Rightarrow> string \<Rightarrow> string \<Rightarrow> payload option \<times> redis" where
  "hGet conf r key field =
     (case client_hGet r (buildKey conf key) field of
        (Inr data, r1) \<Rightarrow> (data, r1)
      | (Inl WRONGTYPE, r1) \<Rightarrow>
          (None, handleWrongTypeError conf r1 key OpHGet (Some field) None None)
      | (Inl e, r1) \<Rightarrow> (None, r1))"

text \<open>\<open>set\<close> and \<open>hSet\<close> rethrow every error that is not a shape mismatch.\<close>

definition set_cache :: "cache_conf \<Rightarrow> redis \<Rightarrow> string \<Rightarrow> payload \<Rightarrow> nat option
    \<Rightarrow> (redis_error + unit) \<times> redis" where
  "set_cache conf r key value ttl =
     (case write_value conf r (buildKey conf key) value ttl of
        (Inr u, r1) \<Rightarrow> (Inr (), r1)
      | (Inl WRONGTYPE, r1) \<Rightarrow>
          (Inr (), handleWrongTypeError conf r1 key OpSet None (Some value) ttl)
      | (Inl e, r1) \<Rightarrow> (Inl e, r1))"

definition hSet :: "cache_conf \<Rightarrow> redis \<Rightarrow> string \<Rightarrow> string \<Rightarrow> payload
    \<Rightarrow> (redis_error + unit) \<times> redis" where
  "hSet conf r key field value =
     (case client_hSet r (buildKey conf key) field value of
        (Inr u, r1) \<Rightarrow> (Inr (), r1)
      | (Inl WRONGTYPE, r1) \<Rightarrow>
          (Inr (), handleWrongTypeError conf r1 key OpHSet (Some field) (Some value) None)
      | (Inl e, r1) \<Rightarrow> (Inl e, r1))"

text \<open>
  \<open>has\<close>, \<open>delete\<close>, \<open>hDelete\<close> and \<open>deleteAll\<close> have one handler each, which logs
  whatever error the command raised, a shape mismatch too, and lets the operation resolve
  to \<^verbatim>\<open>undefined\<close> (\<open>None\<close>). None of them calls \<open>handleWrongTypeError\<close>. The result
  of \<open>delete\<close> is not used by any caller and is left out.
\<close>

definition has_cache :: "cache_conf \<Rightarrow> redis \<Rightarrow> string \<Rightarrow> bool option \<times> redis" where
  "has_cache conf r key =
     (case client_exists r (buildKey conf key) of
        (Inr n, r1) \<Rightarrow> (Some (n > 0), r1)
      | (Inl e, r1) \<Rightarrow> (None, r1))"

definition delete_cache :: "cache_conf \<Rightarrow> redis \<Rightarrow> string \<Rightarrow> redis" where
  "delete_cache conf r key = snd (client_del r (buildKey conf key))"

definition hDelete :: "cache_conf \<Rightarrow> redis \<Rightarrow> string \<Rightarrow> string \<Rightarrow> nat option \<times> redis" where
  "hDelete conf r key field =
     (case client_hDel r (buildKey conf key) field of
        (Inr n, r1) \<Rightarrow> (Some n, r1)
      | (Inl e, r1) \<Rightarrow> (None, r1))"

text \<open>
  \<open>keys(appendCriteria)\<close>: the match is the module's prefix, followed by the criteria and
  a colon when the criteria is a non-empty string; duplicates are dropped; on an error the
  result is \<^verbatim>\<open>undefined\<close> (\<open>None\<close>).
\<close>

definition keys_cache :: "cache_conf \<Rightarrow> redis \<Rightarrow> string option \<Rightarrow> string list option \<times> redis" where
  "keys_cache conf r appendCriteria =
     (let match = buildKey conf [] @
            (case appendCriteria of None \<Rightarrow> [] | Some a \<Rightarrow> if a = [] then [] else a @ '':'')
      in case client_scan r match of
           (Inl e, r1) \<Rightarrow> (None, r1)
         | (Inr ks, r1) \<Rightarrow> (Some (remdups ks), r1))"

text \<open>\<open>deleteAll\<close>: nothing is sent for an enumeration that failed or found no key.\<close>

definition deleteAll :: "cache_conf \<Rightarrow> redis \<Rightarrow> string option \<Rightarrow> nat option \<times> redis" where
  "deleteAll conf r appendCriteria =
     (case keys_cache conf r appendCriteria of
        (None, r1) \<Rightarrow> (Some 0, r1)
      | (Some ks, r1) \<Rightarrow>
          if ks = [] then (Some 0, r1)
          else (case client_del_all r1 ks of
                  (Inr n, r2) \<Rightarrow> (Some n, r2)
                | (Inl e, r2) \<Rightarrow> (None, r2)))"

text \<open>\<open>getKeyType\<close>: the shape of a key, \<^verbatim>\<open>'none'\<close> when the store cannot be asked.\<close>

definition getKeyType :: "cache_conf \<Rightarrow> redis \<Rightarrow> string \<Rightarrow> key_type \<times> redis" where
  "getKeyType conf r key =
     (case client_type r (buildKey conf key) of
        (Inr t, r1) \<Rightarrow> (t, r1)
      | (Inl e, r1) \<Rightarrow> (TNone, r1))"

subsection \<open>The self-healing sweep\<close>

text \<open>The expected shape of a logical key, as \<open>cleanupCorruptedKeys\<close> computes it.\<close>

definition shouldBeHash :: "string \<Rightarrow> bool" where
  "shouldBeHash logicalKey = (str_includes logicalKey '':'' \<or> str_includes logicalKey ''-'')"

definition shouldBeString :: "string \<Rightarrow> bool" where
  "shouldBeString logicalKey = (\<not> shouldBeHash logicalKey)"

definition logicalKey_of :: "cache_conf \<Rightarrow> string \<Rightarrow> string" where
  "logicalKey_of conf key = replace_first (PREFIX_KEY conf @ '':'' @ module conf @ '':'') key"

definition corrupted :: "string \<Rightarrow> key_type \<Rightarrow> bool" where
  "corrupted logicalKey keyType =
     ((shouldBeHash logicalKey \<and> keyType \<noteq> THash) \<or>
      (shouldBeString logicalKey \<and> keyType \<noteq> TString \<and> keyType \<noteq> TNone))"

text \<open>
  The loop body over the scanned keys; an error on one key is caught and the loop goes on.
  The second component counts the deleted keys.
\<close>

fun cleanup_loop :: "cache_conf \<Rightarrow> string list \<Rightarrow> redis \<Rightarrow> nat \<Rightarrow> nat \<times> redis" where
  "cleanup_loop conf [] r cleanedCount = (cleanedCount, r)"
| "cleanup_loop conf (key # ks) r cleanedCount =
     (case client_type r key of
        (Inl e, r1) \<Rightarrow> cleanup_loop conf ks r1 cleanedCount
      | (Inr keyType, r1) \<Rightarrow>
          if corrupted (logicalKey_of conf key) keyType then
            (case client_del r1 key of
               (Inl e, r2) \<Rightarrow> cleanup_loop conf ks r2 cleanedCount
             | (Inr n, r2) \<Rightarrow> cleanup_loop conf ks r2 (cleanedCount + 1))
          else cleanup_loop conf ks r1 cleanedCount)"

text \<open>
  \<open>cleanupCorruptedKeys()\<close> as the restoration calls it, without a pattern: the scan is
  over every key of the module. A failing scan is caught and the result is \<open>0\<close>.
\<close>

definition cleanupCorruptedKeys :: "cache_conf \<Rightarrow> redis \<Rightarrow> nat \<times> redis" where
  "cleanupCorruptedKeys conf r =
     (case client_scan r (buildKey conf []) of
        (Inl e, r1) \<Rightarrow> (0, r1)
      | (Inr ks, r1) \<Rightarrow> cleanup_loop conf ks r1 0)"

section \<open>The durable relational store\<close>

text \<open>
  Modelled from the spec: the repository layer (\<^verbatim>\<open>PrismaRepository\<close>) is not part of the
  sources; the spec (6) gives the boundary: read and write of the Instance record with its
  connection status and identity fields. A query against an unreachable store throws, and
  so does an update of a record that does not exist. Every query is appended to
  \<open>queries\<close>. The webhook, proxy and account-setting sub-records are read by the
  restoration only to be handed on to the channel and are left out.
\<close>

record db_row =
  row_id :: string
  row_name :: string
  row_clientName :: string
  row_connectionStatus :: string
  row_integration :: integration
  row_token :: string
  row_number :: string
  row_businessId :: string
  row_ownerJid :: string
  row_profileName :: string
  row_profilePicUrl :: string

datatype query = FindMany string | FindFirst string | FindAll string | Update string

record database =
  rows :: "db_row list"
  db_up :: bool
  queries :: "query list"

datatype error =
    CacheError redis_error
  | DatabaseError
  | ConnectError
  | SyntaxError
  | StepError
  | BadRequestException string

definition asked :: "database \<Rightarrow> query \<Rightarrow> database" where
  "asked d q = d\<lparr>queries := queries d @ [q]\<rparr>"

definition restorable :: "db_row \<Rightarrow> bool" where
  "restorable row = (row_connectionStatus row = ''open'' \<or> row_connectionStatus row = ''connecting'')"

text \<open>
  \<^verbatim>\<open>findMany({ where: { clientName, connectionStatus: { in: ['open', 'connecting'] } } })\<close>
\<close>

definition findMany_restorable :: "database \<Rightarrow> string \<Rightarrow> (error + db_row list) \<times> database" where
  "findMany_restorable d clientName =
     (let d1 = asked d (FindMany clientName) in
      if \<not> db_up d then (Inl DatabaseError, d1)
      else (Inr (filter (\<lambda>row. row_clientName row = clientName \<and> restorable row) (rows d)), d1))"

text \<open>\<^verbatim>\<open>findMany({ where: { clientName } })\<close>\<close>

definition findMany_client :: "database \<Rightarrow> string \<Rightarrow> (error + db_row list) \<times> database" where
  "findMany_client d clientName =
     (let d1 = asked d (FindAll clientName) in
      if \<not> db_up d then (Inl DatabaseError, d1)
      else (Inr (filter (\<lambda>row. row_clientName row = clientName) (rows d)), d1))"

text \<open>
  \<^verbatim>\<open>findFirst({ where: { OR: [{ id, clientName }, { name, clientName }],
  connectionStatus: { in: ['open', 'connecting'] } } })\<close>
\<close>

definition findFirst_key :: "database \<Rightarrow> string \<Rightarrow> string
    \<Rightarrow> (error + db_row option) \<times> database" where
  "findFirst_key d instanceKey clientName =
     (let d1 = asked d (FindFirst instanceKey) in
      if \<not> db_up d then (Inl DatabaseError, d1)
      else (Inr (find (\<lambda>row. ((row_id row = instanceKey \<and> row_clientName row = clientName) \<or>
                               (row_name row = instanceKey \<and> row_clientName row = clientName)) \<and>
                              restorable row) (rows d)), d1))"

text \<open>\<^verbatim>\<open>update({ where: { id }, data })\<close>, the change of the record given as a function.\<close>

definition update_row :: "database \<Rightarrow> string \<Rightarrow> (db_row \<Rightarrow> db_row) \<Rightarrow> (error + unit) \<times> database" where
  "update_row d ident change =
     (let d1 = asked d (Update ident) in
      if \<not> db_up d \<or> \<not> (\<exists>row \<in> set (rows d). row_id row = ident) then (Inl DatabaseError, d1)
      else (Inr (), d1\<lparr>rows := map (\<lambda>row. if row_id row = ident then change row else row) (rows d)\<rparr>))"

section \<open>The Instance Registry and the process state\<close>

text \<open>
  The transport object of an instance: \<open>ws\<close> is the ready-state of its socket (\<open>None\<close>
  when there is no socket, \<open>1\<close> is OPEN, \<open>2\<close> CLOSING), \<open>user\<close> the id of the
  authenticated user (\<open>None\<close> when there is no user, the empty string when the user has
  no id).
\<close>

record wa_client =
  ws :: "nat option"
  user :: "string option"

text \<open>
  A live instance. \<open>stateConnection\<close> is the declared state that
  \<^verbatim>\<open>instance.connectionStatus?.state\<close> reads and \<^verbatim>\<open>instance.stateConnection.state = ...\<close>
  writes (\<^verbatim>\<open>'open'\<close>, \<^verbatim>\<open>'close'\<close>, \<^verbatim>\<open>'connecting'\<close>; empty when undefined). The
  channel class, with whatever consistency check it runs behind the read of
  \<^verbatim>\<open>connectionStatus\<close>, is not part of the sources; wherever the sources read
  \<^verbatim>\<open>instance.connectionStatus\<close> (the health check, the shutdown, the guard of the send
  path) the read is a step of its own (\<open>read_status\<close> below).
\<close>

record wa_instance =
  inst_instanceId :: string
  inst_integration :: integration
  inst_token :: string
  inst_number :: string
  inst_businessId :: string
  stateConnection :: string
  client :: "wa_client option"
  phoneNumber :: string
  wuid :: string
  inst_profileName :: string
  inst_profilePictureUrl :: string

text \<open>
  What the subsystem does to its collaborators, in the order it does it: socket
  operations, connect attempts, webhook notifications, armed timers, the send operations
  called on a channel (instance name and operation), and the stage announcements of the
  restoration.
\<close>

datatype event =
    WsClose string
  | ClientEnd string
  | ConnectToWhatsapp string
  | ConnectionUpdateWebhook string string bool
  | StopHealthMonitoring
  | ScheduleVerification string nat
  | ChannelCall string string
  | Info string

text \<open>
  \<open>waInstances\<close> is the registry, \<^verbatim>\<open>waInstances: Record<string, any> = {}\<close>: a plain
  object keyed by instance name. The list holds its own properties in the order they
  were created.

  Reading \<^verbatim>\<open>waInstances[name]\<close> for a name the object does not hold itself finds what
  every plain object inherits from \<^verbatim>\<open>Object.prototype\<close>; each of these members is a
  function or an object, so it counts as true in a test and has no
  \<^verbatim>\<open>connectionStatus\<close>.
\<close>

definition prototype_names :: "string list" where
  "prototype_names =
     [''constructor'', ''__defineGetter__'', ''__defineSetter__'', ''hasOwnProperty'',
      ''__lookupGetter__'', ''__lookupSetter__'', ''isPrototypeOf'', ''propertyIsEnumerable'',
      ''toString'', ''valueOf'', ''__proto__'', ''toLocaleString'']"

definition inherited :: "string \<Rightarrow> bool" where
  "inherited name = (name \<in> set prototype_names)"

datatype 'a property = Own 'a | Inherited | Undefined

definition lookup :: "(string \<times> 'a) list \<Rightarrow> string \<Rightarrow> 'a property" where
  "lookup obj name =
     (case map_of obj name of
        Some v \<Rightarrow> Own v
      | None \<Rightarrow> if inherited name then Inherited else Undefined)"

text \<open>
  \<^verbatim>\<open>Object.keys(obj)\<close>: the own names that are array indices (the decimal text of a
  number below \<open>2^32 - 1\<close>) in ascending numeric order, then the other names in the
  order they were created.
\<close>

definition array_index :: "string \<Rightarrow> nat option" where
  "array_index name =
     (case parse_digits 10 name of
        None \<Rightarrow> None
      | Some n \<Rightarrow> if toString n = name \<and> n < 4294967295 then Some n else None)"

definition index_value :: "string \<Rightarrow> nat" where
  "index_value name = (case array_index name of None \<Rightarrow> 0 | Some n \<Rightarrow> n)"

definition Object_keys :: "(string \<times> 'a) list \<Rightarrow> string list" where
  "Object_keys obj =
     sort_key index_value (filter (\<lambda>name. array_index name \<noteq> None) (map fst obj)) @
     filter (\<lambda>name. array_index name = None) (map fst obj)"

record world =
  waInstances :: "(string \<times> wa_instance) list"
  cache :: redis
  prisma :: database
  events :: "event list"
  isShuttingDown :: bool

text \<open>
  The configuration and the behaviour of the collaborators that are not part of the
  sources, taken as parameters: \<open>init\<close> is \<^verbatim>\<open>channelController.init\<close> (\<open>None\<close> when it
  returns nothing), \<open>connect_ok\<close> tells whether \<^verbatim>\<open>connectToWhatsapp\<close> of the named instance
  resolves, \<open>stop_ok\<close> whether
  stopping the cron job of the health monitor returns normally, \<open>JSON_parse\<close> is
  \<^verbatim>\<open>JSON.parse\<close> on a string read from the cache (\<open>None\<close> when it throws, \<open>Some None\<close>
  for a value that carries no fields), \<open>now\<close> is \<^verbatim>\<open>Date.now()\<close>, \<open>isBase64\<close> and
  \<open>isURL\<close> are the validators of the \<^verbatim>\<open>class-validator\<close> library.

  \<open>status_read\<close> is the read of \<^verbatim>\<open>instance.connectionStatus\<close>. The spec (4.3) and
  the tests of the repository describe a check that runs on every such read, compares
  the declared state with the transport and may correct the declared state;
  \<open>status_read E i\<close> is the state the read returns for instance \<open>i\<close>, which is also
  the declared state of the instance from then on. What else the channel does when it
  corrects (persisting, notifying) is the channel's and is not followed.
\<close>

record env =
  REDIS_ENABLED :: bool
  SAVE_INSTANCES :: bool
  SAVE_DATA_INSTANCE :: bool
  CLIENT_NAME :: string
  conf :: cache_conf
  init :: "instance_data \<Rightarrow> wa_instance option"
  connect_ok :: "string \<Rightarrow> bool"
  stop_ok :: bool
  JSON_parse :: "string \<Rightarrow> instance_data option option"
  now :: nat
  isBase64 :: "string \<Rightarrow> bool"
  isURL :: "string \<Rightarrow> bool"
  status_read :: "wa_instance \<Rightarrow> string"

definition emit :: "event \<Rightarrow> world \<Rightarrow> world" where
  "emit e w = w\<lparr>events := events w @ [e]\<rparr>"

definition modify_instance :: "string \<Rightarrow> (wa_instance \<Rightarrow> wa_instance) \<Rightarrow> world \<Rightarrow> world" where
  "modify_instance name f w =
     w\<lparr>waInstances := map (\<lambda>(n, i). if n = name then (n, f i) else (n, i)) (waInstances w)\<rparr>"

text \<open>\<^verbatim>\<open>instance.stateConnection.state = s\<close>\<close>

definition set_state :: "string \<Rightarrow> string \<Rightarrow> world \<Rightarrow> world" where
  "set_state name s w = modify_instance name (\<lambda>i. i\<lparr>stateConnection := s\<rparr>) w"

text \<open>
  The read of \<^verbatim>\<open>instance.connectionStatus\<close> on the instance registered under a name:
  the instance holds the state the read returned.
\<close>

definition read_status :: "env \<Rightarrow> string \<Rightarrow> world \<Rightarrow> world" where
  "read_status E name w =
     modify_instance name (\<lambda>i. i\<lparr>stateConnection := status_read E i\<rparr>) w"

text \<open>
  \<^verbatim>\<open>if (instance.client?.ws) { instance.client.ws.close(); }\<close>: a socket that is closed by
  the program goes to CLOSING.
\<close>

definition closing :: "wa_client option \<Rightarrow> wa_client option" where
  "closing c = (case c of None \<Rightarrow> None | Some cl \<Rightarrow> Some (cl\<lparr>ws := map_option (\<lambda>s. 2) (ws cl)\<rparr>))"

definition has_ws :: "wa_client option \<Rightarrow> bool" where
  "has_ws c = (case c of None \<Rightarrow> False | Some cl \<Rightarrow> ws cl \<noteq> None)"

definition close_ws :: "string \<Rightarrow> world \<Rightarrow> world" where
  "close_ws name w =
     (case map_of (waInstances w) name of
        None \<Rightarrow> w
      | Some i \<Rightarrow>
          if has_ws (client i)
          then emit (WsClose name) (modify_instance name (\<lambda>i. i\<lparr>client := closing (client i)\<rparr>) w)
          else w)"

text \<open>
  Modelled from the spec: the \<^verbatim>\<open>CacheService\<close> wrapper, through which the services
  reach \<open>RedisCache\<close> (\<^verbatim>\<open>new CacheService(new CacheEngine(...).getEngine())\<close>), is not
  part of the sources. The spec has one component here, the Tiered Key Store (2, 4.1),
  whose \<^verbatim>\<open>get\<close>, \<^verbatim>\<open>set(key, value, ttl)\<close> and \<^verbatim>\<open>delete\<close> the services call, and
  it lets the failure of an unreachable cache reach the caller, who is to recover from
  it (4.1: a failed result in place of raising is for reads; 7: a tier-unavailable error
  is recovered by falling back to the next persistence tier). So the wrapper hands key,
  value and TTL to \<open>RedisCache\<close> as they are given and hands the outcome back as it
  is, the error a write throws included.
\<close>

definition cache_set :: "env \<Rightarrow> string \<Rightarrow> payload \<Rightarrow> nat option \<Rightarrow> world \<Rightarrow> (error + unit) \<times> world" where
  "cache_set E key value ttl w =
     (case set_cache (conf E) (cache w) key value ttl of
        (Inl e, r) \<Rightarrow> (Inl (CacheError e), w\<lparr>cache := r\<rparr>)
      | (Inr u, r) \<Rightarrow> (Inr (), w\<lparr>cache := r\<rparr>))"

definition cache_get :: "env \<Rightarrow> string \<Rightarrow> world \<Rightarrow> payload option \<times> world" where
  "cache_get E key w =
     (case get_cache (conf E) (cache w) key of (v, r) \<Rightarrow> (v, w\<lparr>cache := r\<rparr>))"

definition cache_delete :: "env \<Rightarrow> string \<Rightarrow> world \<Rightarrow> world" where
  "cache_delete E key w = w\<lparr>cache := delete_cache (conf E) (cache w) key\<rparr>"

definition db_update :: "string \<Rightarrow> (db_row \<Rightarrow> db_row) \<Rightarrow> world \<Rightarrow> (error + unit) \<times> world" where
  "db_update ident change w =
     (case update_row (prisma w) ident change of (res, d) \<Rightarrow> (res, w\<lparr>prisma := d\<rparr>))"

section \<open>ConnectionHealthService: the Health Monitor\<close>

definition CONNECTION_TIMEOUT :: nat where
  "CONNECTION_TIMEOUT = 120000"

definition isWebSocketHealthy :: "wa_client option \<Rightarrow> bool" where
  "isWebSocketHealthy c =
     (case c of None \<Rightarrow> False
      | Some cl \<Rightarrow> (case ws cl of None \<Rightarrow> False | Some wsState \<Rightarrow> wsState = 1))"

text \<open>
  The liveness probe: the identity lookup resolves at once when the client has a user and
  rejects at once when it has none, so the ten-second timeout it races never decides.
\<close>

definition performPingTest :: "wa_client option \<Rightarrow> bool" where
  "performPingTest c =
     (case c of None \<Rightarrow> False
      | Some cl \<Rightarrow> (case ws cl of None \<Rightarrow> False
                   | Some readyState \<Rightarrow> if readyState \<noteq> 1 then False else user cl \<noteq> None))"

text \<open>\<^verbatim>\<open>client && client.user && client.user.id\<close>\<close>

definition hasValidClient :: "wa_client option \<Rightarrow> bool" where
  "hasValidClient c =
     (case c of None \<Rightarrow> False
      | Some cl \<Rightarrow> (case user cl of None \<Rightarrow> False | Some uid \<Rightarrow> uid \<noteq> []))"

text \<open>
  The recovery handlers. Each wraps its body in a handler that logs: a
  \<^verbatim>\<open>connectToWhatsapp\<close> that rejects changes nothing else.
\<close>

definition handleConnectionMismatch :: "string \<Rightarrow> world \<Rightarrow> world" where
  "handleConnectionMismatch name w = emit (ConnectToWhatsapp name) (set_state name ''close'' w)"

definition handleConnectionFailure :: "string \<Rightarrow> world \<Rightarrow> world" where
  "handleConnectionFailure name w =
     emit (ConnectToWhatsapp name) (set_state name ''close'' (close_ws name w))"

text \<open>
  \<^verbatim>\<open>timestamp ? parseInt(timestamp) : null\<close>: a value that is not a string is turned into
  text that holds no digit first, so it parses to NaN.
\<close>

definition getConnectingTime :: "env \<Rightarrow> string \<Rightarrow> world \<Rightarrow> int option \<times> world" where
  "getConnectingTime E name w =
     (case cache_get E (''connecting_time:'' @ name) w of
        (timestamp, w1) \<Rightarrow>
          ((case timestamp of
              None \<Rightarrow> None
            | Some (PText s) \<Rightarrow> if s = [] then None else parseInt s
            | Some (PData d) \<Rightarrow> None), w1))"

definition setConnectingTime :: "env \<Rightarrow> string \<Rightarrow> world \<Rightarrow> world" where
  "setConnectingTime E name w =
     snd (cache_set E (''connecting_time:'' @ name) (PText (toString (now E))) (Some 300) w)"

definition clearConnectingTime :: "env \<Rightarrow> string \<Rightarrow> world \<Rightarrow> world" where
  "clearConnectingTime E name w = cache_delete E (''connecting_time:'' @ name) w"

definition handleConnectionTimeout :: "env \<Rightarrow> string \<Rightarrow> world \<Rightarrow> world" where
  "handleConnectionTimeout E name w =
     emit (ConnectToWhatsapp name)
       (set_state name ''close'' (clearConnectingTime E name (close_ws name w)))"

text \<open>
  \<open>correctFalseDisconnection\<close>: the update of the durable record and the webhook are each
  in a handler of their own, so a failure of one is logged and the next step runs.
\<close>

definition correctFalseDisconnection :: "env \<Rightarrow> string \<Rightarrow> world \<Rightarrow> world" where
  "correctFalseDisconnection E name w =
     (case map_of (waInstances w) name of
        None \<Rightarrow> w
      | Some i \<Rightarrow>
          let isReallyConnected = performPingTest (client i) in
          if isReallyConnected then
            let w1 = set_state name ''open'' w;
                w2 = snd (db_update (inst_instanceId i)
                            (\<lambda>row. row\<lparr>row_connectionStatus := ''open''\<rparr>) w1)
            in emit (ConnectionUpdateWebhook name ''open'' True) w2
          else handleConnectionFailure name w)"

text \<open>
  \<open>checkInstanceHealth\<close>, in the three blocks of the source. The status is read once,
  after the test of the integration; the state and the client are then read through the
  same objects the handlers write to, so a block sees what the block before it did.
\<close>

definition check_connecting :: "env \<Rightarrow> string \<Rightarrow> world \<Rightarrow> world" where
  "check_connecting E name w =
     (case map_of (waInstances w) name of
        None \<Rightarrow> w
      | Some i \<Rightarrow>
          if stateConnection i = ''connecting'' then
            (case getConnectingTime E name w of
               (connectingTime, w1) \<Rightarrow>
                 (case connectingTime of
                    None \<Rightarrow> w1
                  | Some t \<Rightarrow>
                      if t \<noteq> 0 \<and> int (now E) - t > int CONNECTION_TIMEOUT
                      then handleConnectionTimeout E name w1 else w1))
          else w)"

definition check_closed :: "env \<Rightarrow> string \<Rightarrow> world \<Rightarrow> world" where
  "check_closed E name w =
     (case map_of (waInstances w) name of
        None \<Rightarrow> w
      | Some i \<Rightarrow>
          if stateConnection i = ''close'' \<and> isWebSocketHealthy (client i) \<and> hasValidClient (client i)
          then correctFalseDisconnection E name w
          else check_connecting E name w)"

definition checkInstanceHealth :: "env \<Rightarrow> string \<Rightarrow> world \<Rightarrow> world" where
  "checkInstanceHealth E name w =
     (case map_of (waInstances w) name of
        None \<Rightarrow> w
      | Some i \<Rightarrow>
          if inst_integration i \<noteq> WHATSAPP_BAILEYS then w
          else
            let w1 = read_status E name w in
            if status_read E i = ''open'' then
              (if \<not> isWebSocketHealthy (client i) then handleConnectionMismatch name w1
               else if \<not> performPingTest (client i)
                 then check_closed E name (handleConnectionFailure name w1)
                 else check_closed E name w1)
            else check_closed E name w1)"

text \<open>The sweep over the names the registry holds when it starts.\<close>

definition performHealthChecks :: "env \<Rightarrow> world \<Rightarrow> world" where
  "performHealthChecks E w =
     foldl (\<lambda>w name. checkInstanceHealth E name w) w (Object_keys (waInstances w))"

definition stopHealthMonitoring :: "env \<Rightarrow> world \<Rightarrow> (error + unit) \<times> world" where
  "stopHealthMonitoring E w =
     (if stop_ok E then (Inr (), emit StopHealthMonitoring w) else (Inl StepError, w))"

section \<open>WAMonitoringService: registering instances\<close>

text \<open>
  \<open>setInstance\<close>: the channel is created, given its identity, connected, and only then
  put into the registry under its name, replacing whatever the name held. The
  assignment \<^verbatim>\<open>waInstances[name] = instance\<close> creates or replaces an own property for
  every name but \<^verbatim>\<open>__proto__\<close>: for that name the assignment goes to the inherited
  setter, which replaces the prototype of the registry and creates no entry. What the
  registry inherits from then on is not followed; the restoration never gets there, as
  \<open>restoreInstance\<close> below passes this name over.
\<close>

definition setInstance :: "env \<Rightarrow> instance_data \<Rightarrow> world \<Rightarrow> (error + unit) \<times> world" where
  "setInstance E instanceData w =
     (case init E instanceData of
        None \<Rightarrow> (Inr (), w)
      | Some i \<Rightarrow>
          let i1 = i\<lparr>inst_instanceId := instanceId instanceData,
                     inst_integration := integration instanceData,
                     inst_token := token instanceData,
                     inst_number := number instanceData,
                     inst_businessId := businessId instanceData\<rparr>;
              w1 = emit (ConnectToWhatsapp (instanceName instanceData)) w
          in if \<not> connect_ok E (instanceName instanceData) then (Inl ConnectError, w1)
             else if instanceName instanceData = ''__proto__'' then (Inr (), w1)
             else (Inr (), w1\<lparr>waInstances :=
                                AList.update (instanceName instanceData) i1 (waInstances w1)\<rparr>))"

definition dto_of_row :: "db_row \<Rightarrow> instance_data" where
  "dto_of_row row =
     \<lparr>instanceId = row_id row, instanceName = row_name row, integration = row_integration row,
      token = row_token row, number = row_number row, businessId = row_businessId row,
      connectionStatus = [], ownerJid = [], profileName = [], profilePicUrl = []\<rparr>"

text \<open>
  \<open>loadInstancesFromDatabasePostgres\<close>: every record of the client namespace is handed to
  \<open>setInstance\<close>; the calls are not awaited, so a rejected one is lost.
\<close>

definition loadInstancesFromDatabasePostgres :: "env \<Rightarrow> world \<Rightarrow> (error + unit) \<times> world" where
  "loadInstancesFromDatabasePostgres E w =
     (case findMany_client (prisma w) (CLIENT_NAME E) of
        (Inl e, d) \<Rightarrow> (Inl e, w\<lparr>prisma := d\<rparr>)
      | (Inr instances, d) \<Rightarrow>
          (Inr (), foldl (\<lambda>w row. snd (setInstance E (dto_of_row row) w)) (w\<lparr>prisma := d\<rparr>) instances))"

text \<open>The round-trip probe of the cache: write, read, delete.\<close>

definition checkCacheAvailability :: "env \<Rightarrow> string \<Rightarrow> world \<Rightarrow> bool \<times> world" where
  "checkCacheAvailability E name w =
     (let testKey = ''test:'' @ name @ '':'' @ toString (now E) in
      case cache_set E testKey (PText ''test'') (Some 5) w of
        (Inl e, w1) \<Rightarrow> (False, w1)
      | (Inr u, w1) \<Rightarrow>
          (case cache_get E testKey w1 of
             (result, w2) \<Rightarrow> (result = Some (PText ''test''), cache_delete E testKey w2)))"

section \<open>SessionRestorationService: the Restoration Coordinator and the persistence gateway\<close>

text \<open>
  \<open>restoreInstance\<close>: a record without a name is skipped, and so is a name for which
  \<^verbatim>\<open>waInstances[name]\<close> is true in a test, which is a name the registry holds and also
  a name it inherits; otherwise the instance is registered through \<open>setInstance\<close> and
  the restoration marker is written with a TTL of 300 seconds. An error of either step
  is logged and thrown on.
\<close>

definition restoreInstance :: "env \<Rightarrow> instance_data \<Rightarrow> world \<Rightarrow> (error + unit) \<times> world" where
  "restoreInstance E instanceData w =
     (if instanceName instanceData = [] then (Inr (), w)
      else if lookup (waInstances w) (instanceName instanceData) \<noteq> Undefined then (Inr (), w)
      else (case setInstance E instanceData w of
              (Inl e, w1) \<Rightarrow> (Inl e, w1)
            | (Inr u, w1) \<Rightarrow>
                cache_set E (''restored:'' @ instanceName instanceData) (PText ''true'') (Some 300) w1))"

text \<open>
  The loop of \<open>restoreFromDatabase\<close>: \<open>restored\<close> counts the records whose
  \<open>restoreInstance\<close> returned, a record whose restoration threw is logged and passed over.
\<close>

fun restore_rows :: "env \<Rightarrow> db_row list \<Rightarrow> world \<Rightarrow> nat \<Rightarrow> nat \<times> world" where
  "restore_rows E [] w restored = (restored, w)"
| "restore_rows E (row # rs) w restored =
     (case restoreInstance E (dto_of_row row) w of
        (Inl e, w1) \<Rightarrow> restore_rows E rs w1 restored
      | (Inr u, w1) \<Rightarrow> restore_rows E rs w1 (restored + 1))"

definition restoreFromDatabase :: "env \<Rightarrow> string \<Rightarrow> world \<Rightarrow> nat \<times> world" where
  "restoreFromDatabase E clientName w =
     (let w0 = emit (Info ''Attempting to restore sessions from database'') w in
      case findMany_restorable (prisma w0) clientName of
        (Inl e, d) \<Rightarrow> (0, w0\<lparr>prisma := d\<rparr>)
      | (Inr instances, d) \<Rightarrow>
          if instances = [] then (0, w0\<lparr>prisma := d\<rparr>)
          else restore_rows E instances (w0\<lparr>prisma := d\<rparr>) 0)"

definition findInstanceInDatabase :: "env \<Rightarrow> string \<Rightarrow> world \<Rightarrow> instance_data option \<times> world" where
  "findInstanceInDatabase E instanceKey w =
     (case findFirst_key (prisma w) instanceKey (CLIENT_NAME E) of
        (Inl e, d) \<Rightarrow> (None, w\<lparr>prisma := d\<rparr>)
      | (Inr found, d) \<Rightarrow> (map_option dto_of_row found, w\<lparr>prisma := d\<rparr>))"

text \<open>The keys the cache stage passes over without reading them.\<close>

definition skipped :: "string \<Rightarrow> bool" where
  "skipped instanceKey =
     (str_includes instanceKey ''connecting_time'' \<or>
      str_includes instanceKey ''restored'' \<or>
      str_includes instanceKey ''creds'' \<or>
      str_includes instanceKey ''-'')"

text \<open>
  The per-key fallback of the cache stage, entered when reading or restoring the key
  threw: a single-key lookup in the durable tier. An error of this second restoration is
  caught by the handler around the whole iteration.
\<close>

definition database_fallback :: "env \<Rightarrow> string \<Rightarrow> world \<Rightarrow> nat \<Rightarrow> nat \<times> world" where
  "database_fallback E instanceKey w restored =
     (if SAVE_DATA_INSTANCE E then
        (case findInstanceInDatabase E instanceKey w of
           (None, w1) \<Rightarrow> (restored, w1)
         | (Some dbInstance, w1) \<Rightarrow>
             (case restoreInstance E dbInstance w1 of
                (Inl e, w2) \<Rightarrow> (restored, w2)
              | (Inr u, w2) \<Rightarrow> (restored + 1, w2)))
      else (restored, w))"

text \<open>
  \<^verbatim>\<open>parsedData && (parsedData.instanceName || parsedData.instanceId)\<close>, then the
  restoration of a record that passed.
\<close>

definition restore_parsed :: "env \<Rightarrow> string \<Rightarrow> instance_data option \<Rightarrow> world \<Rightarrow> nat \<Rightarrow> nat \<times> world" where
  "restore_parsed E instanceKey parsedData w restored =
     (case parsedData of
        None \<Rightarrow> (restored, w)
      | Some d \<Rightarrow>
          if instanceName d \<noteq> [] \<or> instanceId d \<noteq> [] then
            (case restoreInstance E d w of
               (Inl e, w1) \<Rightarrow> database_fallback E instanceKey w1 restored
             | (Inr u, w1) \<Rightarrow> (restored + 1, w1))
          else (restored, w))"

text \<open>One iteration of the loop of \<open>restoreFromRedisCache\<close> over the keys.\<close>

definition restore_key :: "env \<Rightarrow> string \<Rightarrow> world \<Rightarrow> nat \<Rightarrow> nat \<times> world" where
  "restore_key E fullKey w restored =
     (let keyParts = split CHR '':'' fullKey in
      if length keyParts \<ge> 3 \<and> keyParts ! 1 = ''instance'' then
        let instanceKey = join '':'' (drop 2 keyParts) in
        if skipped instanceKey then (restored, w)
        else
          (case cache_get E instanceKey w of
             (None, w1) \<Rightarrow> (restored, w1)
           | (Some (PData d), w1) \<Rightarrow> restore_parsed E instanceKey (Some d) w1 restored
           | (Some (PText s), w1) \<Rightarrow>
               if s = [] then (restored, w1)
               else (case JSON_parse E s of
                       None \<Rightarrow> database_fallback E instanceKey w1 restored
                     | Some parsedData \<Rightarrow> restore_parsed E instanceKey parsedData w1 restored))
      else (restored, w))"

fun restore_keys :: "env \<Rightarrow> string list \<Rightarrow> world \<Rightarrow> nat \<Rightarrow> nat \<times> world" where
  "restore_keys E [] w restored = (restored, w)"
| "restore_keys E (fullKey # ks) w restored =
     (case restore_key E fullKey w restored of (restored1, w1) \<Rightarrow> restore_keys E ks w1 restored1)"

text \<open>
  \<open>restoreFromRedisCache\<close>: the self-healing sweep, the enumeration of the keys, the loop.
  The sweep and the enumeration catch their own errors, so nothing reaches the handler
  around the whole stage.
\<close>

definition restoreFromRedisCache :: "env \<Rightarrow> world \<Rightarrow> nat \<times> world" where
  "restoreFromRedisCache E w =
     (let w0 = emit (Info ''Attempting to restore sessions from Redis cache'') w in
      case cleanupCorruptedKeys (conf E) (cache w0) of
        (cleanedCount, r1) \<Rightarrow>
          (case keys_cache (conf E) r1 (Some []) of
             (None, r2) \<Rightarrow> (0, w0\<lparr>cache := r2\<rparr>)
           | (Some ks, r2) \<Rightarrow>
               if ks = [] then (0, w0\<lparr>cache := r2\<rparr>)
               else restore_keys E ks (w0\<lparr>cache := r2\<rparr>) 0))"

definition restoreFromProviderFiles :: "world \<Rightarrow> nat \<times> world" where
  "restoreFromProviderFiles w =
     (0, emit (Info ''Attempting to restore sessions from provider files'') w)"

text \<open>\<^verbatim>\<open>if (wasRestored)\<close> on a value read from the cache.\<close>

definition truthy :: "payload option \<Rightarrow> bool" where
  "truthy v = (case v of None \<Rightarrow> False | Some (PText s) \<Rightarrow> s \<noteq> [] | Some (PData d) \<Rightarrow> True)"

text \<open>
  \<open>verifyRestoredConnections\<close>: for every registered name that carries the restoration
  marker a verification is armed ten seconds later.
\<close>

fun verify_names :: "env \<Rightarrow> string list \<Rightarrow> world \<Rightarrow> world" where
  "verify_names E [] w = w"
| "verify_names E (name # ns) w =
     (case cache_get E (''restored:'' @ name) w of
        (wasRestored, w1) \<Rightarrow>
          verify_names E ns (if truthy wasRestored then emit (ScheduleVerification name 10000) w1 else w1))"

definition verifyRestoredConnections :: "env \<Rightarrow> world \<Rightarrow> world" where
  "verifyRestoredConnections E w = verify_names E (Object_keys (waInstances w)) w"

text \<open>
  \<open>restoreAllSessions\<close>. The result is \<open>restoredCount\<close> with the state; no stage throws, so
  the handler around the run has nothing to rethrow.
\<close>

definition restoreAllSessions :: "env \<Rightarrow> world \<Rightarrow> nat \<times> world" where
  "restoreAllSessions E w =
     (let (c1, w1) = (if REDIS_ENABLED E \<and> SAVE_INSTANCES E then restoreFromRedisCache E w else (0, w));
          (c2, w2) = (if SAVE_DATA_INSTANCE E then restoreFromDatabase E (CLIENT_NAME E) w1 else (0, w1));
          (c3, w3) = (if c1 + c2 = 0 then restoreFromProviderFiles w2 else (0, w2))
      in (c1 + c2 + c3, verifyRestoredConnections E w3))"

text \<open>
  \<open>persistInstanceState\<close>: one handler around both writes. The cache write is made with
  TTL \<open>0\<close>; the update of the durable record leaves a field alone when the data has no
  value for it.
\<close>

definition persisted_row :: "instance_data \<Rightarrow> db_row \<Rightarrow> db_row" where
  "persisted_row d row =
     row\<lparr>row_connectionStatus := (if connectionStatus d \<noteq> [] then connectionStatus d else ''open''),
         row_ownerJid := (if ownerJid d \<noteq> [] then ownerJid d else row_ownerJid row),
         row_profileName := (if profileName d \<noteq> [] then profileName d else row_profileName row),
         row_profilePicUrl := (if profilePicUrl d \<noteq> [] then profilePicUrl d else row_profilePicUrl row),
         row_number := (if number d \<noteq> [] then number d else row_number row)\<rparr>"

definition persistInstanceState :: "env \<Rightarrow> string \<Rightarrow> instance_data \<Rightarrow> world \<Rightarrow> world" where
  "persistInstanceState E name instanceData w =
     (case (if REDIS_ENABLED E \<and> SAVE_INSTANCES E
            then (let cacheKey = (if instanceId instanceData \<noteq> [] then instanceId instanceData else name)
                  in cache_set E cacheKey (PData instanceData) (Some 0) w)
            else (Inr (), w)) of
        (Inl e, w1) \<Rightarrow> w1
      | (Inr u, w1) \<Rightarrow>
          if SAVE_DATA_INSTANCE E \<and> instanceId instanceData \<noteq> []
          then snd (db_update (instanceId instanceData) (persisted_row instanceData) w1)
          else w1)"

section \<open>GracefulShutdownService: the Shutdown Coordinator\<close>

text \<open>
  The record \<open>saveAllInstanceStates\<close> builds for an instance. Its connection status is
  \<^verbatim>\<open>instance.connectionStatus?.state || 'close'\<close>, the state as the read of the status
  returns it.
\<close>

definition data_of_instance :: "env \<Rightarrow> string \<Rightarrow> wa_instance \<Rightarrow> instance_data" where
  "data_of_instance E name i =
     \<lparr>instanceId = inst_instanceId i, instanceName = name, integration = inst_integration i,
      token = inst_token i, number = phoneNumber i, businessId = inst_businessId i,
      connectionStatus = (if status_read E i \<noteq> [] then status_read E i else ''close''),
      ownerJid = wuid i, profileName = inst_profileName i,
      profilePicUrl = inst_profilePictureUrl i\<rparr>"

text \<open>
  \<open>saveAllInstanceStates\<close>: one persist per registered name, each in a handler of its own;
  all of them are awaited. The model runs them in the order \<^verbatim>\<open>Object.keys\<close> gives.
\<close>

definition save_one :: "env \<Rightarrow> world \<Rightarrow> string \<Rightarrow> world" where
  "save_one E w name =
     (case map_of (waInstances w) name of
        None \<Rightarrow> w
      | Some i \<Rightarrow>
          persistInstanceState E name (data_of_instance E name i) (read_status E name w))"

definition saveAllInstanceStates :: "env \<Rightarrow> world \<Rightarrow> world" where
  "saveAllInstanceStates E w = foldl (save_one E) w (Object_keys (waInstances w))"

text \<open>
  \<open>closeBaileysConnection\<close>: with a socket present the state is set to closed, an open
  socket is closed and the client ended (the client is taken to have its \<^verbatim>\<open>end\<close>
  operation). The close has nothing to wait for, so the five-second timeout it races
  never decides and the forced terminate of the handler is not reached.
\<close>

definition closeBaileysConnection :: "string \<Rightarrow> world \<Rightarrow> world" where
  "closeBaileysConnection name w =
     (case map_of (waInstances w) name of
        None \<Rightarrow> w
      | Some i \<Rightarrow>
          if has_ws (client i) then
            let w1 = set_state name ''close'' w;
                w2 = (if isWebSocketHealthy (client i) then close_ws name w1 else w1)
            in emit (ClientEnd name) w2
          else w)"

definition close_one :: "world \<Rightarrow> string \<Rightarrow> world" where
  "close_one w name =
     (case map_of (waInstances w) name of
        None \<Rightarrow> w
      | Some i \<Rightarrow> if inst_integration i = WHATSAPP_BAILEYS then closeBaileysConnection name w else w)"

definition closeAllConnections :: "world \<Rightarrow> world" where
  "closeAllConnections w = foldl close_one w (Object_keys (waInstances w))"

text \<open>
  \<open>performGracefulShutdown\<close>: the four steps in order inside one handler that logs and
  rethrows, so a step that throws ends the drain there. Releasing the resources is a
  wait of one second.
\<close>

definition performGracefulShutdown :: "env \<Rightarrow> world \<Rightarrow> (error + unit) \<times> world" where
  "performGracefulShutdown E w =
     (case stopHealthMonitoring E w of
        (Inl e, w1) \<Rightarrow> (Inl e, w1)
      | (Inr u, w1) \<Rightarrow> (Inr (), closeAllConnections (saveAllInstanceStates E w1)))"

text \<open>
  \<open>initiateShutdown\<close>: the result is the outcome the process exits with, \<open>None\<close> when the
  call is ignored because a shutdown is already in progress. The drain is taken to end
  before the 30-second timer fires.
\<close>

definition initiateShutdown :: "env \<Rightarrow> world \<Rightarrow> nat option \<times> world" where
  "initiateShutdown E w =
     (if isShuttingDown w then (None, w)
      else (case performGracefulShutdown E (w\<lparr>isShuttingDown := True\<rparr>) of
              (Inr u, w1) \<Rightarrow> (Some 0, w1)
            | (Inl e, w1) \<Rightarrow> (Some 1, w1)))"

section \<open>SendMessageController: the guard of the send path\<close>

definition quote :: string where
  "quote = [CHR 0x22]"

definition not_found_message :: "string \<Rightarrow> string" where
  "not_found_message name =
     ''Instance '' @ quote @ name @ quote @
     '' not found. Please ensure the instance is created and connected.''"

definition not_ready_message :: "string \<Rightarrow> string \<Rightarrow> string" where
  "not_ready_message name connectionState =
     ''Instance '' @ quote @ name @ quote @ '' is not ready for message sending. '' @
     ''Current state: '' @ (if connectionState \<noteq> [] then connectionState else ''unknown'') @
     ''. Please wait for the instance to connect.''"

definition missing_components_message :: "string \<Rightarrow> string" where
  "missing_components_message name =
     ''Instance '' @ quote @ name @ quote @
     '' is missing critical components. Please reconnect the instance.''"

text \<open>
  \<open>validateInstanceReady\<close>. A name the registry neither holds nor inherits is not
  found. For a name it only inherits the lookup gives a member of \<^verbatim>\<open>Object.prototype\<close>,
  whose \<^verbatim>\<open>connectionStatus\<close> is undefined, so the state is reported as unknown. For a
  registered instance the status is read, and the state the read returned is what the
  guard tests.
\<close>

definition validateInstanceReady :: "env \<Rightarrow> world \<Rightarrow> string \<Rightarrow> (error + unit) \<times> world" where
  "validateInstanceReady E w name =
     (case lookup (waInstances w) name of
        Undefined \<Rightarrow> (Inl (BadRequestException (not_found_message name)), w)
      | Inherited \<Rightarrow> (Inl (BadRequestException (not_ready_message name [])), w)
      | Own i \<Rightarrow>
          let connectionState = status_read E i;
              w1 = read_status E name w
          in if connectionState \<noteq> ''open''
             then (Inl (BadRequestException (not_ready_message name connectionState)), w1)
             else if client i = None \<or> inst_instanceId i = []
             then (Inl (BadRequestException (missing_components_message name)), w1)
             else (Inr (), w1))"

text \<open>
  The send operations. Each runs the guard first and then calls the operation of the
  channel, which is recorded as an event; the payload is handed to the channel as it is
  and is left out, but for what the controller itself tests of it: the media, video,
  sticker or audio reference, the file name and media type, whether a file (with a
  buffer) came along, and the reaction as its sequence of code points.
\<close>

definition call_channel :: "string \<Rightarrow> string \<Rightarrow> world \<Rightarrow> (error + unit) \<times> world" where
  "call_channel name operation w = (Inr (), emit (ChannelCall name operation) w)"

definition owned_media_message :: string where
  "owned_media_message = ''Owned media must be a url or base64''"

definition sendTemplate :: "env \<Rightarrow> world \<Rightarrow> string \<Rightarrow> (error + unit) \<times> world" where
  "sendTemplate E w name =
     (case validateInstanceReady E w name of
        (Inl e, w1) \<Rightarrow> (Inl e, w1)
      | (Inr u, w1) \<Rightarrow> call_channel name ''templateMessage'' w1)"

definition sendText :: "env \<Rightarrow> world \<Rightarrow> string \<Rightarrow> (error + unit) \<times> world" where
  "sendText E w name =
     (case validateInstanceReady E w name of
        (Inl e, w1) \<Rightarrow> (Inl e, w1)
      | (Inr u, w1) \<Rightarrow> call_channel name ''textMessage'' w1)"

definition sendMedia :: "env \<Rightarrow> world \<Rightarrow> string \<Rightarrow> string \<Rightarrow> string \<Rightarrow> string \<Rightarrow> bool
    \<Rightarrow> (error + unit) \<times> world" where
  "sendMedia E w name media fileName mediatype file =
     (case validateInstanceReady E w name of
        (Inl e, w1) \<Rightarrow> (Inl e, w1)
      | (Inr u, w1) \<Rightarrow>
          if isBase64 E media \<and> fileName = [] \<and> mediatype = ''document''
          then (Inl (BadRequestException ''For base64 the file name must be informed.''), w1)
          else if file \<or> isURL E media \<or> isBase64 E media
          then call_channel name ''mediaMessage'' w1
          else (Inl (BadRequestException owned_media_message), w1))"

definition sendPtv :: "env \<Rightarrow> world \<Rightarrow> string \<Rightarrow> string \<Rightarrow> bool \<Rightarrow> (error + unit) \<times> world" where
  "sendPtv E w name video file =
     (case validateInstanceReady E w name of
        (Inl e, w1) \<Rightarrow> (Inl e, w1)
      | (Inr u, w1) \<Rightarrow>
          if file \<or> isURL E video \<or> isBase64 E video
          then call_channel name ''ptvMessage'' w1
          else (Inl (BadRequestException owned_media_message), w1))"

definition sendSticker :: "env \<Rightarrow> world \<Rightarrow> string \<Rightarrow> string \<Rightarrow> bool \<Rightarrow> (error + unit) \<times> world" where
  "sendSticker E w name sticker file =
     (case validateInstanceReady E w name of
        (Inl e, w1) \<Rightarrow> (Inl e, w1)
      | (Inr u, w1) \<Rightarrow>
          if file \<or> isURL E sticker \<or> isBase64 E sticker
          then call_channel name ''mediaSticker'' w1
          else (Inl (BadRequestException owned_media_message), w1))"

definition sendWhatsAppAudio :: "env \<Rightarrow> world \<Rightarrow> string \<Rightarrow> string \<Rightarrow> bool
    \<Rightarrow> (error + unit) \<times> world" where
  "sendWhatsAppAudio E w name audio file_buffer =
     (case validateInstanceReady E w name of
        (Inl e, w1) \<Rightarrow> (Inl e, w1)
      | (Inr u, w1) \<Rightarrow>
          if file_buffer \<or> isURL E audio \<or> isBase64 E audio
          then call_channel name ''audioWhatsapp'' w1
          else (Inl (BadRequestException
                  ''Owned media must be a url, base64, or valid file with buffer''), w1))"

definition sendButtons :: "env \<Rightarrow> world \<Rightarrow> string \<Rightarrow> (error + unit) \<times> world" where
  "sendButtons E w name =
     (case validateInstanceReady E w name of
        (Inl e, w1) \<Rightarrow> (Inl e, w1)
      | (Inr u, w1) \<Rightarrow> call_channel name ''buttonMessage'' w1)"

definition sendLocation :: "env \<Rightarrow> world \<Rightarrow> string \<Rightarrow> (error + unit) \<times> world" where
  "sendLocation E w name =
     (case validateInstanceReady E w name of
        (Inl e, w1) \<Rightarrow> (Inl e, w1)
      | (Inr u, w1) \<Rightarrow> call_channel name ''locationMessage'' w1)"

definition sendList :: "env \<Rightarrow> world \<Rightarrow> string \<Rightarrow> (error + unit) \<times> world" where
  "sendList E w name =
     (case validateInstanceReady E w name of
        (Inl e, w1) \<Rightarrow> (Inl e, w1)
      | (Inr u, w1) \<Rightarrow> call_channel name ''listMessage'' w1)"

definition sendContact :: "env \<Rightarrow> world \<Rightarrow> string \<Rightarrow> (error + unit) \<times> world" where
  "sendContact E w name =
     (case validateInstanceReady E w name of
        (Inl e, w1) \<Rightarrow> (Inl e, w1)
      | (Inr u, w1) \<Rightarrow> call_channel name ''contactMessage'' w1)"

text \<open>
  \<open>isEmoji\<close>: the empty string, or exactly one code point of the ranges of the pattern.
\<close>

definition isEmoji :: "nat list \<Rightarrow> bool" where
  "isEmoji str =
     (str = [] \<or>
      (case str of
         [cp] \<Rightarrow>
           (0x1F300 \<le> cp \<and> cp \<le> 0x1F9FF) \<or> (0x2600 \<le> cp \<and> cp \<le> 0x26FF) \<or>
           (0x2700 \<le> cp \<and> cp \<le> 0x27BF) \<or> (0x1F000 \<le> cp \<and> cp \<le> 0x1F02F) \<or>
           (0x1F0A0 \<le> cp \<and> cp \<le> 0x1F0FF) \<or> (0x1F100 \<le> cp \<and> cp \<le> 0x1F64F) \<or>
           (0x1F680 \<le> cp \<and> cp \<le> 0x1F6FF)
       | _ \<Rightarrow> False))"

definition sendReaction :: "env \<Rightarrow> world \<Rightarrow> string \<Rightarrow> nat list \<Rightarrow> (error + unit) \<times> world" where
  "sendReaction E w name reaction =
     (case validateInstanceReady E w name of
        (Inl e, w1) \<Rightarrow> (Inl e, w1)
      | (Inr u, w1) \<Rightarrow>
          if \<not> isEmoji reaction
          then (Inl (BadRequestException ''Reaction must be a single emoji or empty string''), w1)
          else call_channel name ''reactionMessage'' w1)"

definition sendPoll :: "env \<Rightarrow> world \<Rightarrow> string \<Rightarrow> (error + unit) \<times> world" where
  "sendPoll E w name =
     (case validateInstanceReady E w name of
        (Inl e, w1) \<Rightarrow> (Inl e, w1)
      | (Inr u, w1) \<Rightarrow> call_channel name ''pollMessage'' w1)"

definition sendStatus :: "env \<Rightarrow> world \<Rightarrow> string \<Rightarrow> (error + unit) \<times> world" where
  "sendStatus E w name =
     (case validateInstanceReady E w name of
        (Inl e, w1) \<Rightarrow> (Inl e, w1)
      | (Inr u, w1) \<Rightarrow> call_channel name ''statusMessage'' w1)"

section \<open>Notions used in the statements\<close>

text \<open>The shape a physical key holds.\<close>

definition holds_hash :: "redis \<Rightarrow> string \<Rightarrow> bool" where
  "holds_hash r k = (\<exists>e h. map_of (store r) k = Some e \<and> val e = RHash h)"

definition holds_string :: "redis \<Rightarrow> string \<Rightarrow> bool" where
  "holds_string r k = (\<exists>e s. map_of (store r) k = Some e \<and> val e = RString s)"

text \<open>The command and the expiry of the write that \<open>write_value\<close> issues.\<close>

definition write_command :: "cache_conf \<Rightarrow> string \<Rightarrow> payload \<Rightarrow> nat option \<Rightarrow> command" where
  "write_command c fullKey v ttl =
     (if ttl = Some 0 then CSet fullKey v else CSetEx fullKey (ttl_or_default c ttl) v)"

definition write_expiry :: "cache_conf \<Rightarrow> nat option \<Rightarrow> nat option" where
  "write_expiry c ttl = (if ttl = Some 0 then None else Some (ttl_or_default c ttl))"

text \<open>The store after a repair: the shape was queried and the key deleted.\<close>

definition repaired :: "redis \<Rightarrow> string \<Rightarrow> redis" where
  "repaired r k = (sent (sent r (CType k)) (CDel k))\<lparr>store := AList.delete k (store r)\<rparr>"

text \<open>The logical key the cache stage of the restoration extracts from a physical key.\<close>

definition extracted :: "string \<Rightarrow> string" where
  "extracted fullKey = join '':'' (drop 2 (split CHR '':'' fullKey))"

text \<open>The stage announcements among the events, in order.\<close>

fun stages :: "event list \<Rightarrow> string list" where
  "stages [] = []"
| "stages (Info s # es) = s # stages es"
| "stages (e # es) = stages es"

text \<open>Commands that write a value with an expiry.\<close>

fun expiring :: "command \<Rightarrow> bool" where
  "expiring (CSetEx k seconds v) = True"
| "expiring c = False"

text \<open>The key \<open>persistInstanceState\<close> writes the record under.\<close>

definition cacheKey_of :: "string \<Rightarrow> instance_data \<Rightarrow> string" where
  "cacheKey_of name d = (if instanceId d \<noteq> [] then instanceId d else name)"

text \<open>
  What every step of a restoration keeps: the entries the registry holds stay as they
  are, names stay unique, no stage is announced, and the durable records are not written.
\<close>

definition kept :: "world \<Rightarrow> world \<Rightarrow> bool" where
  "kept w w' \<longleftrightarrow>
     map_of (waInstances w) \<subseteq>\<^sub>m map_of (waInstances w') \<and>
     (distinct (map fst (waInstances w)) \<longrightarrow> distinct (map fst (waInstances w'))) \<and>
     stages (events w') = stages (events w) \<and>
     rows (prisma w') = rows (prisma w) \<and>
     db_up (prisma w') = db_up (prisma w)"

text \<open>
  The eligible records the durable tier returns to the restoration (none when it cannot
  be reached), and the ones among them that \<open>restoreInstance\<close> can register in a given
  state: the name is not empty, the registry object answers nothing for it, the channel
  is created and connects.
\<close>

definition eligible :: "env \<Rightarrow> world \<Rightarrow> db_row list" where
  "eligible E w =
     (if db_up (prisma w)
      then filter (\<lambda>row. row_clientName row = CLIENT_NAME E \<and> restorable row) (rows (prisma w))
      else [])"

definition registrable :: "env \<Rightarrow> world \<Rightarrow> db_row \<Rightarrow> bool" where
  "registrable E w row \<longleftrightarrow>
     row_name row \<noteq> [] \<and> lookup (waInstances w) (row_name row) = Undefined \<and>
     init E (dto_of_row row) \<noteq> None \<and> connect_ok E (row_name row)"

definition registrable_names :: "env \<Rightarrow> world \<Rightarrow> string set" where
  "registrable_names E w = row_name ` {row \<in> set (eligible E w). registrable E w row}"

text \<open>
  The keys of the transient entries: the restoration marker, the connect-start marker
  and the test key of the availability probe. A command is permitted when it carries no
  expiry or writes one of these keys; a state of the cache is tidy with respect to an
  earlier one when the commands sent in between are all permitted, and a step of the
  subsystem is orderly when it leaves the cache tidy.
\<close>

definition transient_key :: "cache_conf \<Rightarrow> string \<Rightarrow> bool" where
  "transient_key c k \<longleftrightarrow>
     prefix (buildKey c ''restored:'') k \<or> prefix (buildKey c ''connecting_time:'') k \<or>
     prefix (buildKey c ''test:'') k"

fun permitted :: "cache_conf \<Rightarrow> command \<Rightarrow> bool" where
  "permitted c (CSetEx k seconds v) = transient_key c k"
| "permitted c cmd = True"

definition tidy :: "cache_conf \<Rightarrow> redis \<Rightarrow> redis \<Rightarrow> bool" where
  "tidy c r r' \<longleftrightarrow> (\<exists>cmds. log r' = log r @ cmds \<and> list_all (permitted c) cmds)"

definition orderly :: "env \<Rightarrow> world \<Rightarrow> world \<Rightarrow> bool" where
  "orderly E w w' \<longleftrightarrow> tidy (conf E) (cache w) (cache w')"

text \<open>The state after the cache stage of a run, and what the stage counted.\<close>

definition cache_stage :: "env \<Rightarrow> world \<Rightarrow> nat \<times> world" where
  "cache_stage E w =
     (if REDIS_ENABLED E \<and> SAVE_INSTANCES E then restoreFromRedisCache E w else (0, w))"

definition database_stage :: "env \<Rightarrow> world \<Rightarrow> nat \<times> world" where
  "database_stage E w =
     (if SAVE_DATA_INSTANCE E then restoreFromDatabase E (CLIENT_NAME E) (snd (cache_stage E w))
      else (0, snd (cache_stage E w)))"

text \<open>
  The outcome of a send that the guard turns down for the state the read returned: the
  error with its message, and the world as the read left it.
\<close>

definition rejection :: "env \<Rightarrow> world \<Rightarrow> string \<Rightarrow> wa_instance \<Rightarrow> (error + unit) \<times> world" where
  "rejection E w name i =
     (Inl (BadRequestException (not_ready_message name (status_read E i))),
      read_status E name w)"

text \<open>An instance the shutdown has a socket to close for.\<close>

definition closable :: "world \<Rightarrow> string \<Rightarrow> bool" where
  "closable w name =
     (\<exists>i. map_of (waInstances w) name = Some i \<and> inst_integration i = WHATSAPP_BAILEYS \<and>
          has_ws (client i))"

subsection \<open>A sample deployment\<close>

definition sample_conf :: cache_conf where
  "sample_conf = \<lparr>PREFIX_KEY = ''evolution_cache'', module = ''instance'', TTL = 604800\<rparr>"

text \<open>A channel as it is created: declared closed, no transport yet.\<close>

definition fresh_channel :: wa_instance where
  "fresh_channel =
     \<lparr>inst_instanceId = [], inst_integration = WHATSAPP_BAILEYS, inst_token = [],
      inst_number = [], inst_businessId = [], stateConnection = ''close'', client = None,
      phoneNumber = [], wuid = [], inst_profileName = [], inst_profilePictureUrl = []\<rparr>"

definition sample_env :: env where
  "sample_env =
     \<lparr>REDIS_ENABLED = True, SAVE_INSTANCES = True, SAVE_DATA_INSTANCE = True,
      CLIENT_NAME = ''evolution'', conf = sample_conf, init = (\<lambda>d. Some fresh_channel),
      connect_ok = (\<lambda>n. True), stop_ok = True, JSON_parse = (\<lambda>s. None),
      now = 1700000000000, isBase64 = (\<lambda>s. False), isURL = (\<lambda>s. False),
      status_read = stateConnection\<rparr>"

definition empty_redis :: redis where
  "empty_redis = \<lparr>store = [], up = True, log = []\<rparr>"

definition empty_database :: database where
  "empty_database = \<lparr>rows = [], db_up = True, queries = []\<rparr>"

definition empty_world :: world where
  "empty_world =
     \<lparr>waInstances = [], cache = empty_redis, prisma = empty_database, events = [],
      isShuttingDown = False\<rparr>"

text \<open>A store whose only key is a healthy connect-start marker, written as a scalar.\<close>

definition marker_store :: redis where
  "marker_store =
     \<lparr>store = [(''evolution_cache:instance:connecting_time:alpha'',
                 \<lparr>val = RString (PText ''1700000000000''), expiry = Some 300\<rparr>)],
      up = True, log = []\<rparr>"

text \<open>The key of instance \<open>alpha\<close> holding a field map, and holding a scalar.\<close>

definition hash_at_alpha :: redis where
  "hash_at_alpha =
     \<lparr>store = [(''evolution_cache:instance:alpha'',
                 \<lparr>val = RHash [(''creds'', PText ''secret'')], expiry = None\<rparr>)],
      up = True, log = []\<rparr>"

definition string_at_alpha :: redis where
  "string_at_alpha =
     \<lparr>store = [(''evolution_cache:instance:alpha'',
                 \<lparr>val = RString (PText ''record''), expiry = None\<rparr>)],
      up = True, log = []\<rparr>"

text \<open>
  Instance \<open>alpha\<close>, declared closed over a transport that is ready and authenticated,
  and the same over a ready transport without a user; its durable record.
\<close>

definition connected_client :: wa_client where
  "connected_client = \<lparr>ws = Some 1, user = Some ''5511999999999@s.whatsapp.net''\<rparr>"


definition alpha_closed :: wa_instance where
  "alpha_closed = fresh_channel\<lparr>inst_instanceId := ''id1'', client := Some connected_client\<rparr>"


definition alpha_row :: db_row where
  "alpha_row =
     \<lparr>row_id = ''id1'', row_name = ''alpha'', row_clientName = ''evolution'',
      row_connectionStatus = ''close'', row_integration = WHATSAPP_BAILEYS, row_token = [],
      row_number = [], row_businessId = [], row_ownerJid = [], row_profileName = [],
      row_profilePicUrl = []\<rparr>"

definition alpha_database :: database where
  "alpha_database = \<lparr>rows = [alpha_row], db_up = True, queries = []\<rparr>"

definition false_close_world :: world where
  "false_close_world =
     \<lparr>waInstances = [(''alpha'', alpha_closed)], cache = empty_redis, prisma = alpha_database,
      events = [], isShuttingDown = False\<rparr>"


text \<open>The record of \<open>alpha\<close> as it is persisted, and a world whose cache is unreachable.\<close>

definition alpha_data :: instance_data where
  "alpha_data = data_of_instance sample_env ''alpha'' alpha_closed"

definition cache_down_world :: world where
  "cache_down_world =
     \<lparr>waInstances = [(''alpha'', alpha_closed)], cache = \<lparr>store = [], up = False, log = []\<rparr>,
      prisma = alpha_database, events = [], isShuttingDown = False\<rparr>"

definition database_down_world :: world where
  "database_down_world =
     \<lparr>waInstances = [(''alpha'', alpha_closed)], cache = empty_redis,
      prisma = \<lparr>rows = [alpha_row], db_up = False, queries = []\<rparr>,
      events = [], isShuttingDown = False\<rparr>"

text \<open>A world whose cache holds the record of \<open>alpha\<close> under a plain key.\<close>

definition cached_world :: world where
  "cached_world =
     \<lparr>waInstances = [],
      cache = \<lparr>store = [(''evolution_cache:instance:alpha'',
                          \<lparr>val = RString (PData alpha_data), expiry = None\<rparr>)],
               up = True, log = []\<rparr>,
      prisma = alpha_database, events = [], isShuttingDown = False\<rparr>"

text \<open>A durable tier with one eligible record, \<open>beta\<close>, and nothing in the cache.\<close>

definition beta_row :: db_row where
  "beta_row =
     \<lparr>row_id = ''id2'', row_name = ''beta'', row_clientName = ''evolution'',
      row_connectionStatus = ''open'', row_integration = WHATSAPP_BAILEYS, row_token = [],
      row_number = [], row_businessId = [], row_ownerJid = [], row_profileName = [],
      row_profilePicUrl = []\<rparr>"

definition durable_world :: world where
  "durable_world =
     \<lparr>waInstances = [], cache = empty_redis,
      prisma = \<lparr>rows = [alpha_row, beta_row], db_up = True, queries = []\<rparr>,
      events = [], isShuttingDown = False\<rparr>"

text \<open>
  A durable tier whose one eligible record is named \<open>constructor\<close>, and one whose
  eligible record has an empty name.
\<close>

definition constructor_row :: db_row where
  "constructor_row = beta_row\<lparr>row_id := ''id3'', row_name := ''constructor''\<rparr>"

definition constructor_world :: world where
  "constructor_world =
     \<lparr>waInstances = [], cache = empty_redis,
      prisma = \<lparr>rows = [constructor_row], db_up = True, queries = []\<rparr>,
      events = [], isShuttingDown = False\<rparr>"

definition nameless_world :: world where
  "nameless_world =
     \<lparr>waInstances = [], cache = empty_redis,
      prisma = \<lparr>rows = [beta_row\<lparr>row_name := []\<rparr>], db_up = True, queries = []\<rparr>,
      events = [], isShuttingDown = False\<rparr>"

section \<open>Verified properties\<close>

subsection \<open>Strings\<close>

lemma str_includes_iff: "str_includes s sub \<longleftrightarrow> (\<exists>ps ss. s = ps @ sub @ ss)"
proof (induction s)
  case Nil
  then show ?case by auto
next
  case (Cons c cs)
  show ?case
  proof
    assume "str_includes (c # cs) sub"
    then consider "prefix sub (c # cs)" | "str_includes cs sub" by auto
    then show "\<exists>ps ss. c # cs = ps @ sub @ ss"
    proof cases
      case 1
      then obtain ss where "c # cs = sub @ ss" by (auto simp: prefix_def)
      then have "c # cs = [] @ sub @ ss" by simp
      then show ?thesis by blast
    next
      case 2
      with Cons.IH obtain ps ss where "cs = ps @ sub @ ss" by blast
      then have "c # cs = (c # ps) @ sub @ ss" by simp
      then show ?thesis by blast
    qed
  next
    assume "\<exists>ps ss. c # cs = ps @ sub @ ss"
    then obtain ps ss where eq: "c # cs = ps @ sub @ ss" by blast
    show "str_includes (c # cs) sub"
    proof (cases ps)
      case Nil
      with eq have "prefix sub (c # cs)" by (simp add: prefix_def)
      then show ?thesis by simp
    next
      case (Cons p ps')
      with eq have "cs = ps' @ sub @ ss" by simp
      with Cons.IH have "str_includes cs sub" by blast
      then show ?thesis by simp
    qed
  qed
qed

lemma includes_mid: "str_includes (a @ b @ c) b"
  unfolding str_includes_iff by blast

lemma split_nonempty: "split sep s \<noteq> []"
  by (induction s) (auto split: list.splits)

lemma join_Cons: "parts \<noteq> [] \<Longrightarrow> join sep (w # parts) = w @ sep @ join sep parts"
  by (cases parts) simp_all

lemma join_split: "join [sep] (split sep s) = s"
proof (induction s)
  case Nil
  show ?case by simp
next
  case (Cons c cs)
  show ?case
  proof (cases "c = sep")
    case True
    then show ?thesis using Cons.IH by (simp add: join_Cons split_nonempty)
  next
    case False
    obtain w parts where sp: "split sep cs = w # parts"
      using split_nonempty [of sep cs] by (cases "split sep cs") auto
    have "join [sep] ((c # w) # parts) = c # join [sep] (w # parts)"
      by (cases parts) simp_all
    then show ?thesis using False sp Cons.IH by simp
  qed
qed

lemma split_append_sep:
  "sep \<notin> set p \<Longrightarrow> split sep (p @ sep # rest) = p # split sep rest"
  by (induction p) auto

lemma replace_first_prefix: "replace_first pat (pat @ rest) = rest"
proof (cases "pat @ rest")
  case Nil
  then show ?thesis by simp
next
  case (Cons a list)
  then have p: "prefix pat (a # list)"
    by (metis prefixI)
  have d: "drop (length pat) (a # list) = rest"
    using Cons by (metis append_eq_conv_conj)
  show ?thesis
    using p d Cons by simp
qed

lemma logicalKey_of_buildKey: "logicalKey_of c (buildKey c k) = k"
  using replace_first_prefix [of "PREFIX_KEY c @ '':'' @ module c @ '':''" k]
  by (simp add: logicalKey_of_def buildKey_def)

lemma extracted_buildKey:
  assumes "CHR '':'' \<notin> set (PREFIX_KEY c)" and "CHR '':'' \<notin> set (module c)"
  shows "split CHR '':'' (buildKey c k) = PREFIX_KEY c # module c # split CHR '':'' k"
    and "extracted (buildKey c k) = k"
proof -
  show s: "split CHR '':'' (buildKey c k) = PREFIX_KEY c # module c # split CHR '':'' k"
    using assms by (simp add: buildKey_def split_append_sep)
  show "extracted (buildKey c k) = k"
    using join_split [of "CHR '':''" k] by (simp add: extracted_def s)
qed

subsection \<open>The remote cache and its repair\<close>

lemma sent_simps [simp]:
  "store (sent r c) = store r" "up (sent r c) = up r" "log (sent r c) = log r @ [c]"
  by (simp_all add: sent_def)

lemma client_get_wrongtype:
  "fst (client_get r k) = Inl WRONGTYPE \<longleftrightarrow> up r \<and> holds_hash r k"
  by (auto simp: client_get_def holds_hash_def Let_def split: option.splits rvalue.splits)

lemma client_hGet_wrongtype:
  "fst (client_hGet r k f) = Inl WRONGTYPE \<longleftrightarrow> up r \<and> holds_string r k"
  by (auto simp: client_hGet_def holds_string_def Let_def split: option.splits rvalue.splits)

lemma client_hSet_wrongtype:
  "fst (client_hSet r k f v) = Inl WRONGTYPE \<longleftrightarrow> up r \<and> holds_string r k"
  by (auto simp: client_hSet_def holds_string_def Let_def split: option.splits rvalue.splits)

lemma write_value_wrongtype:
  "fst (write_value c r k v ttl) = Inl WRONGTYPE \<longleftrightarrow> up r \<and> holds_hash r k"
  by (auto simp: write_value_def client_set_def client_setEx_def write_string_def holds_hash_def
      Let_def split: option.splits rvalue.splits)

lemma client_get_hash:
  "up r \<Longrightarrow> holds_hash r k \<Longrightarrow> client_get r k = (Inl WRONGTYPE, sent r (CGet k))"
  by (auto simp: client_get_def holds_hash_def Let_def)

lemma client_hGet_string:
  "up r \<Longrightarrow> holds_string r k \<Longrightarrow> client_hGet r k f = (Inl WRONGTYPE, sent r (CHGet k f))"
  by (auto simp: client_hGet_def holds_string_def Let_def)

lemma client_hSet_string:
  "up r \<Longrightarrow> holds_string r k \<Longrightarrow> client_hSet r k f v = (Inl WRONGTYPE, sent r (CHSet k f v))"
  by (auto simp: client_hSet_def holds_string_def Let_def)

lemma write_value_hash:
  "up r \<Longrightarrow> holds_hash r k \<Longrightarrow>
   write_value c r k v ttl = (Inl WRONGTYPE, sent r (write_command c k v ttl))"
  by (auto simp: write_value_def write_command_def client_set_def client_setEx_def
      write_string_def holds_hash_def Let_def)

lemma write_value_absent:
  "up r \<Longrightarrow> map_of (store r) k = None \<Longrightarrow>
   write_value c r k v ttl =
     (Inr (), (sent r (write_command c k v ttl))
        \<lparr>store := AList.update k \<lparr>val = RString v, expiry = write_expiry c ttl\<rparr> (store r)\<rparr>)"
  by (auto simp: write_value_def write_command_def write_expiry_def client_set_def
      client_setEx_def write_string_def Let_def)

lemma client_hSet_absent:
  "up r \<Longrightarrow> map_of (store r) k = None \<Longrightarrow>
   client_hSet r k f v =
     (Inr (), (sent r (CHSet k f v))
        \<lparr>store := AList.update k \<lparr>val = RHash [(f, v)], expiry = None\<rparr> (store r)\<rparr>)"
  by (auto simp: client_hSet_def Let_def)

lemma repaired_simps [simp]:
  "up (repaired r k) = up r"
  "log (repaired r k) = log r @ [CType k, CDel k]"
  "map_of (store (repaired r k)) k = None"
  by (simp_all add: repaired_def AList.delete_conv')

lemma type_del_present:
  assumes "up r" and "map_of (store r) k \<noteq> None"
  shows "\<exists>t. t \<noteq> TNone \<and> client_type r k = (Inr t, sent r (CType k))"
    and "client_del (sent r (CType k)) k = (Inr 1, repaired r k)"
  using assms
  by (auto simp: client_type_def client_del_def repaired_def Let_def split: rvalue.splits)

lemma handle_present:
  assumes "up r" and "map_of (store r) (buildKey c k) \<noteq> None"
  shows "handleWrongTypeError c r k operation field value ttl =
     (case operation of
        OpGet \<Rightarrow> repaired r (buildKey c k)
      | OpHGet \<Rightarrow> repaired r (buildKey c k)
      | OpSet \<Rightarrow> (case value of None \<Rightarrow> repaired r (buildKey c k)
                  | Some v \<Rightarrow> snd (write_value c (repaired r (buildKey c k)) (buildKey c k) v ttl))
      | OpHSet \<Rightarrow> (case (value, field) of
                     (Some v, Some f) \<Rightarrow> snd (client_hSet (repaired r (buildKey c k)) (buildKey c k) f v)
                   | _ \<Rightarrow> repaired r (buildKey c k)))"
proof -
  from type_del_present(1) [OF assms] obtain t where
    t: "t \<noteq> TNone" "client_type r (buildKey c k) = (Inr t, sent r (CType (buildKey c k)))"
    by blast
  note d = type_del_present(2) [OF assms]
  show ?thesis
    by (simp add: handleWrongTypeError_def Let_def t d split: operation.splits option.splits)
qed

lemma get_repair:
  assumes "fst (client_get r (buildKey c k)) = Inl WRONGTYPE"
  shows "get_cache c r k = (None, repaired (sent r (CGet (buildKey c k))) (buildKey c k))"
proof -
  from assms have u: "up r" and h: "holds_hash r (buildKey c k)"
    by (simp_all add: client_get_wrongtype)
  from h have p: "map_of (store (sent r (CGet (buildKey c k)))) (buildKey c k) \<noteq> None"
    by (auto simp: holds_hash_def)
  show ?thesis
    using u p by (simp add: get_cache_def client_get_hash [OF u h] handle_present)
qed

lemma hGet_repair:
  assumes "fst (client_hGet r (buildKey c k) f) = Inl WRONGTYPE"
  shows "hGet c r k f = (None, repaired (sent r (CHGet (buildKey c k) f)) (buildKey c k))"
proof -
  from assms have u: "up r" and h: "holds_string r (buildKey c k)"
    by (simp_all add: client_hGet_wrongtype)
  from h have p: "map_of (store (sent r (CHGet (buildKey c k) f))) (buildKey c k) \<noteq> None"
    by (auto simp: holds_string_def)
  show ?thesis
    using u p by (simp add: hGet_def client_hGet_string [OF u h] handle_present)
qed

lemma set_repair:
  assumes "fst (write_value c r (buildKey c k) v ttl) = Inl WRONGTYPE"
  shows "fst (set_cache c r k v ttl) = Inr ()"
    and "log (snd (set_cache c r k v ttl)) =
           log r @ [write_command c (buildKey c k) v ttl, CType (buildKey c k),
                    CDel (buildKey c k), write_command c (buildKey c k) v ttl]"
    and "map_of (store (snd (set_cache c r k v ttl))) (buildKey c k) =
           Some \<lparr>val = RString v, expiry = write_expiry c ttl\<rparr>"
    and "fst (get_cache c (snd (set_cache c r k v ttl)) k) = Some v"
proof -
  let ?fk = "buildKey c k"
  let ?r1 = "sent r (write_command c ?fk v ttl)"
  from assms have u: "up r" and h: "holds_hash r ?fk"
    by (simp_all add: write_value_wrongtype)
  from h have p: "map_of (store ?r1) ?fk \<noteq> None"
    by (auto simp: holds_hash_def)
  have s: "set_cache c r k v ttl =
             (Inr (), snd (write_value c (repaired ?r1 ?fk) ?fk v ttl))"
    using u p by (simp add: set_cache_def write_value_hash [OF u h] handle_present)
  have w: "write_value c (repaired ?r1 ?fk) ?fk v ttl =
     (Inr (), (sent (repaired ?r1 ?fk) (write_command c ?fk v ttl))
        \<lparr>store := AList.update ?fk \<lparr>val = RString v, expiry = write_expiry c ttl\<rparr>
                    (store (repaired ?r1 ?fk))\<rparr>)"
    using u by (intro write_value_absent) simp_all
  show "fst (set_cache c r k v ttl) = Inr ()" by (simp add: s)
  show "log (snd (set_cache c r k v ttl)) =
           log r @ [write_command c ?fk v ttl, CType ?fk, CDel ?fk, write_command c ?fk v ttl]"
    by (simp add: s w)
  show st: "map_of (store (snd (set_cache c r k v ttl))) ?fk =
           Some \<lparr>val = RString v, expiry = write_expiry c ttl\<rparr>"
    by (simp add: s w AList.update_conv')
  have "up (snd (set_cache c r k v ttl))" using u by (simp add: s w)
  then show "fst (get_cache c (snd (set_cache c r k v ttl)) k) = Some v"
    using st by (simp add: get_cache_def client_get_def Let_def)
qed

lemma hSet_repair:
  assumes "fst (client_hSet r (buildKey c k) f v) = Inl WRONGTYPE"
  shows "fst (hSet c r k f v) = Inr ()"
    and "log (snd (hSet c r k f v)) =
           log r @ [CHSet (buildKey c k) f v, CType (buildKey c k),
                    CDel (buildKey c k), CHSet (buildKey c k) f v]"
    and "fst (hGet c (snd (hSet c r k f v)) k f) = Some v"
proof -
  let ?fk = "buildKey c k"
  let ?r1 = "sent r (CHSet ?fk f v)"
  from assms have u: "up r" and h: "holds_string r ?fk"
    by (simp_all add: client_hSet_wrongtype)
  from h have p: "map_of (store ?r1) ?fk \<noteq> None"
    by (auto simp: holds_string_def)
  have s: "hSet c r k f v = (Inr (), snd (client_hSet (repaired ?r1 ?fk) ?fk f v))"
    using u p by (simp add: hSet_def client_hSet_string [OF u h] handle_present)
  have w: "client_hSet (repaired ?r1 ?fk) ?fk f v =
     (Inr (), (sent (repaired ?r1 ?fk) (CHSet ?fk f v))
        \<lparr>store := AList.update ?fk \<lparr>val = RHash [(f, v)], expiry = None\<rparr>
                    (store (repaired ?r1 ?fk))\<rparr>)"
    using u by (intro client_hSet_absent) simp_all
  show "fst (hSet c r k f v) = Inr ()" by (simp add: s)
  show "log (snd (hSet c r k f v)) = log r @ [CHSet ?fk f v, CType ?fk, CDel ?fk, CHSet ?fk f v]"
    by (simp add: s w)
  have st: "map_of (store (snd (hSet c r k f v))) ?fk = Some \<lparr>val = RHash [(f, v)], expiry = None\<rparr>"
    by (simp add: s w AList.update_conv')
  have "up (snd (hSet c r k f v))" using u by (simp add: s w)
  then show "fst (hGet c (snd (hSet c r k f v)) k f) = Some v"
    using st by (simp add: hGet_def client_hGet_def Let_def)
qed

text \<open>
  The operations that can meet a shape mismatch at all are the five that work on one
  shape only; a field delete that meets one sends nothing further.
\<close>

lemma client_hDel_wrongtype:
  "fst (client_hDel r k f) = Inl WRONGTYPE \<longleftrightarrow> up r \<and> holds_string r k"
  by (auto simp: client_hDel_def holds_string_def Let_def split: option.splits rvalue.splits)

lemma hDelete_mismatch:
  assumes "fst (client_hDel r (buildKey c k) f) = Inl WRONGTYPE"
  shows "hDelete c r k f = (None, sent r (CHDel (buildKey c k) f))"
  using assms
  by (auto simp: hDelete_def client_hDel_def Let_def split: option.splits rvalue.splits if_splits)

lemma no_mismatch_elsewhere:
  "fst (client_exists r k) \<noteq> Inl WRONGTYPE"
  "fst (client_del r k) \<noteq> Inl WRONGTYPE"
  "fst (client_del_all r ks) \<noteq> Inl WRONGTYPE"
  "fst (client_scan r pre) \<noteq> Inl WRONGTYPE"
  "fst (client_type r k) \<noteq> Inl WRONGTYPE"
  by (auto simp: client_exists_def client_del_def client_del_all_def client_scan_def
      client_type_def Let_def split: option.splits rvalue.splits)

text \<open>
  C4. Whenever \<open>get\<close>, \<open>hGet\<close>, \<open>set\<close> or \<open>hSet\<close> of the Tiered Key Store meets a shape
  mismatch (the store answers \<^verbatim>\<open>WRONGTYPE\<close> to the command the operation sends), the
  store is asked for the shape of the key and the key is deleted. A read (\<open>get\<close>,
  \<open>hGet\<close>) then returns null and raises nothing. A write (\<open>set\<close>, \<open>hSet\<close>) returns
  normally after sending the original write exactly once more, and a read that follows
  returns the value just written. The fifth operation that can meet a mismatch, the field
  delete \<open>hDelete\<close>, is not repaired: it returns nothing, sends no further command and
  leaves the store as it is. The remaining commands (exists, delete, enumeration, shape
  query) are never answered with a mismatch.
\<close>

theorem C4_shape_mismatch_is_repaired:
  "(fst (client_get r (buildKey c k)) = Inl WRONGTYPE \<longrightarrow>
      fst (get_cache c r k) = None \<and>
      log (snd (get_cache c r k)) =
        log r @ [CGet (buildKey c k), CType (buildKey c k), CDel (buildKey c k)] \<and>
      map_of (store (snd (get_cache c r k))) (buildKey c k) = None) \<and>
   (fst (client_hGet r (buildKey c k) f) = Inl WRONGTYPE \<longrightarrow>
      fst (hGet c r k f) = None \<and>
      log (snd (hGet c r k f)) =
        log r @ [CHGet (buildKey c k) f, CType (buildKey c k), CDel (buildKey c k)] \<and>
      map_of (store (snd (hGet c r k f))) (buildKey c k) = None) \<and>
   (fst (write_value c r (buildKey c k) v ttl) = Inl WRONGTYPE \<longrightarrow>
      fst (set_cache c r k v ttl) = Inr () \<and>
      log (snd (set_cache c r k v ttl)) =
        log r @ [write_command c (buildKey c k) v ttl, CType (buildKey c k),
                 CDel (buildKey c k), write_command c (buildKey c k) v ttl] \<and>
      fst (get_cache c (snd (set_cache c r k v ttl)) k) = Some v) \<and>
   (fst (client_hSet r (buildKey c k) f v) = Inl WRONGTYPE \<longrightarrow>
      fst (hSet c r k f v) = Inr () \<and>
      log (snd (hSet c r k f v)) =
        log r @ [CHSet (buildKey c k) f v, CType (buildKey c k),
                 CDel (buildKey c k), CHSet (buildKey c k) f v] \<and>
      fst (hGet c (snd (hSet c r k f v)) k f) = Some v) \<and>
   (fst (client_hDel r (buildKey c k) f) = Inl WRONGTYPE \<longrightarrow>
      fst (hDelete c r k f) = None \<and>
      log (snd (hDelete c r k f)) = log r @ [CHDel (buildKey c k) f] \<and>
      store (snd (hDelete c r k f)) = store r) \<and>
   fst (client_exists r k') \<noteq> Inl WRONGTYPE \<and> fst (client_del r k') \<noteq> Inl WRONGTYPE \<and>
   fst (client_del_all r ks) \<noteq> Inl WRONGTYPE \<and> fst (client_scan r pre) \<noteq> Inl WRONGTYPE \<and>
   fst (client_type r k') \<noteq> Inl WRONGTYPE"
proof (intro conjI impI)
  assume a: "fst (client_get r (buildKey c k)) = Inl WRONGTYPE"
  show "fst (get_cache c r k) = None"
    by (simp add: get_repair [OF a])
  show "log (snd (get_cache c r k)) =
          log r @ [CGet (buildKey c k), CType (buildKey c k), CDel (buildKey c k)]"
    by (simp add: get_repair [OF a])
  show "map_of (store (snd (get_cache c r k))) (buildKey c k) = None"
    by (simp add: get_repair [OF a])
next
  assume a: "fst (client_hGet r (buildKey c k) f) = Inl WRONGTYPE"
  show "fst (hGet c r k f) = None"
    by (simp add: hGet_repair [OF a])
  show "log (snd (hGet c r k f)) =
          log r @ [CHGet (buildKey c k) f, CType (buildKey c k), CDel (buildKey c k)]"
    by (simp add: hGet_repair [OF a])
  show "map_of (store (snd (hGet c r k f))) (buildKey c k) = None"
    by (simp add: hGet_repair [OF a])
next
  assume a: "fst (write_value c r (buildKey c k) v ttl) = Inl WRONGTYPE"
  show "fst (set_cache c r k v ttl) = Inr ()"
    by (rule set_repair(1) [OF a])
  show "log (snd (set_cache c r k v ttl)) =
          log r @ [write_command c (buildKey c k) v ttl, CType (buildKey c k),
                   CDel (buildKey c k), write_command c (buildKey c k) v ttl]"
    by (rule set_repair(2) [OF a])
  show "fst (get_cache c (snd (set_cache c r k v ttl)) k) = Some v"
    by (rule set_repair(4) [OF a])
next
  assume a: "fst (client_hSet r (buildKey c k) f v) = Inl WRONGTYPE"
  show "fst (hSet c r k f v) = Inr ()"
    by (rule hSet_repair(1) [OF a])
  show "log (snd (hSet c r k f v)) =
          log r @ [CHSet (buildKey c k) f v, CType (buildKey c k),
                   CDel (buildKey c k), CHSet (buildKey c k) f v]"
    by (rule hSet_repair(2) [OF a])
  show "fst (hGet c (snd (hSet c r k f v)) k f) = Some v"
    by (rule hSet_repair(3) [OF a])
next
  assume a: "fst (client_hDel r (buildKey c k) f) = Inl WRONGTYPE"
  show "fst (hDelete c r k f) = None"
    by (simp add: hDelete_mismatch [OF a])
  show "log (snd (hDelete c r k f)) = log r @ [CHDel (buildKey c k) f]"
    by (simp add: hDelete_mismatch [OF a])
  show "store (snd (hDelete c r k f)) = store r"
    by (simp add: hDelete_mismatch [OF a])
qed (rule no_mismatch_elsewhere)+

theorem C4_shape_mismatch_is_repaired_witness:
  "fst (client_get hash_at_alpha (buildKey sample_conf ''alpha'')) = Inl WRONGTYPE \<and>
   fst (get_cache sample_conf hash_at_alpha ''alpha'') = None \<and>
   fst (write_value sample_conf hash_at_alpha (buildKey sample_conf ''alpha'') (PText ''new'') (Some 0))
     = Inl WRONGTYPE \<and>
   fst (get_cache sample_conf
          (snd (set_cache sample_conf hash_at_alpha ''alpha'' (PText ''new'') (Some 0))) ''alpha'')
     = Some (PText ''new'') \<and>
   fst (client_hGet string_at_alpha (buildKey sample_conf ''alpha'') ''creds'') = Inl WRONGTYPE \<and>
   fst (hGet sample_conf string_at_alpha ''alpha'' ''creds'') = None \<and>
   fst (client_hSet string_at_alpha (buildKey sample_conf ''alpha'') ''creds'' (PText ''new''))
     = Inl WRONGTYPE \<and>
   fst (hGet sample_conf
          (snd (hSet sample_conf string_at_alpha ''alpha'' ''creds'' (PText ''new''))) ''alpha'' ''creds'')
     = Some (PText ''new'') \<and>
   fst (client_hDel string_at_alpha (buildKey sample_conf ''alpha'') ''creds'') = Inl WRONGTYPE \<and>
   fst (hDelete sample_conf string_at_alpha ''alpha'' ''creds'') = None \<and>
   store (snd (hDelete sample_conf string_at_alpha ''alpha'' ''creds'')) = store string_at_alpha"
proof -
  have h1: "fst (client_get hash_at_alpha (buildKey sample_conf ''alpha'')) = Inl WRONGTYPE"
    by (simp add: client_get_def hash_at_alpha_def sample_conf_def buildKey_def Let_def)
  have h2: "fst (write_value sample_conf hash_at_alpha (buildKey sample_conf ''alpha'')
                   (PText ''new'') (Some 0)) = Inl WRONGTYPE"
    by (simp add: write_value_def client_set_def write_string_def hash_at_alpha_def
        sample_conf_def buildKey_def Let_def)
  have h3: "fst (client_hGet string_at_alpha (buildKey sample_conf ''alpha'') ''creds'') = Inl WRONGTYPE"
    by (simp add: client_hGet_def string_at_alpha_def sample_conf_def buildKey_def Let_def)
  have h4: "fst (client_hSet string_at_alpha (buildKey sample_conf ''alpha'') ''creds'' (PText ''new''))
              = Inl WRONGTYPE"
    by (simp add: client_hSet_def string_at_alpha_def sample_conf_def buildKey_def Let_def)
  have h5: "fst (client_hDel string_at_alpha (buildKey sample_conf ''alpha'') ''creds'') = Inl WRONGTYPE"
    by (simp add: client_hDel_def string_at_alpha_def sample_conf_def buildKey_def Let_def)
  show ?thesis
    using h1 h2 h3 h4 h5
      C4_shape_mismatch_is_repaired
        [of hash_at_alpha sample_conf "''alpha''" "''creds''" "PText ''new''" "Some 0"]
      C4_shape_mismatch_is_repaired
        [of string_at_alpha sample_conf "''alpha''" "''creds''" "PText ''new''" "Some 0"]
    by blast
qed

text \<open>
  A field delete on a key that holds a scalar: the store answers with the mismatch, and
  the operation only logs it. The one command in the log is the field delete; the store
  was not asked for the shape, nothing was deleted, and the key holds the scalar as
  before.
\<close>

theorem C4_field_delete_is_not_repaired:
  "holds_string string_at_alpha (buildKey sample_conf ''alpha'') \<and>
   fst (client_hDel string_at_alpha (buildKey sample_conf ''alpha'') ''creds'') = Inl WRONGTYPE \<and>
   fst (hDelete sample_conf string_at_alpha ''alpha'' ''creds'') = None \<and>
   log (snd (hDelete sample_conf string_at_alpha ''alpha'' ''creds'')) =
     [CHDel ''evolution_cache:instance:alpha'' ''creds''] \<and>
   CType ''evolution_cache:instance:alpha'' \<notin>
     set (log (snd (hDelete sample_conf string_at_alpha ''alpha'' ''creds''))) \<and>
   CDel ''evolution_cache:instance:alpha'' \<notin>
     set (log (snd (hDelete sample_conf string_at_alpha ''alpha'' ''creds''))) \<and>
   holds_string (snd (hDelete sample_conf string_at_alpha ''alpha'' ''creds''))
     (buildKey sample_conf ''alpha'')"
  by (simp add: hDelete_def client_hDel_def holds_string_def string_at_alpha_def sample_conf_def
      buildKey_def sent_def Let_def)

subsection \<open>The shape classifier of the sweep\<close>

lemma auth_keys_expected_hash: "shouldBeHash (''auth:'' @ name)"
  by (simp add: shouldBeHash_def)

lemma plain_keys_expected_string:
  "\<not> str_includes k '':'' \<Longrightarrow> \<not> str_includes k ''-'' \<Longrightarrow> shouldBeString k"
  by (simp add: shouldBeString_def shouldBeHash_def)

text \<open>
  C3. The classifier of the sweep expects a field map for every key of the auth
  namespace, but it does not expect a scalar for every key of the plain namespace: the
  connect-start marker and the restoration marker, both written as scalars, are expected
  to be field maps because their keys contain a colon, and the sweep deletes a healthy
  connect-start marker.
\<close>

theorem C3_sweep_deletes_scalar_marker:
  "shouldBeHash (''connecting_time:'' @ name) \<and>
   shouldBeHash (''restored:'' @ name) \<and>
   holds_string marker_store (buildKey sample_conf ''connecting_time:alpha'') \<and>
   fst (cleanupCorruptedKeys sample_conf marker_store) = 1 \<and>
   store (snd (cleanupCorruptedKeys sample_conf marker_store)) = []"
proof (intro conjI)
  show "shouldBeHash (''connecting_time:'' @ name)"
    by (simp add: shouldBeHash_def)
  show "shouldBeHash (''restored:'' @ name)"
    by (simp add: shouldBeHash_def)
  show "holds_string marker_store (buildKey sample_conf ''connecting_time:alpha'')"
    by (simp add: holds_string_def marker_store_def sample_conf_def buildKey_def)
  show "fst (cleanupCorruptedKeys sample_conf marker_store) = 1"
    by (simp add: cleanupCorruptedKeys_def client_scan_def marker_store_def sample_conf_def
      buildKey_def sent_def client_type_def corrupted_def logicalKey_of_def shouldBeHash_def
      shouldBeString_def client_del_def Let_def)
  show "store (snd (cleanupCorruptedKeys sample_conf marker_store)) = []"
    by (simp add: cleanupCorruptedKeys_def client_scan_def marker_store_def sample_conf_def
      buildKey_def sent_def client_type_def corrupted_def logicalKey_of_def shouldBeHash_def
      shouldBeString_def client_del_def Let_def)
qed

subsection \<open>The keys the cache stage passes over\<close>

lemma restore_key_skipped:
  "skipped (extracted fullKey) \<Longrightarrow> restore_key E fullKey w restored = (restored, w)"
  by (simp add: restore_key_def extracted_def Let_def)

lemma restore_keys_skipped:
  "\<forall>fullKey \<in> set ks. skipped (extracted fullKey) \<Longrightarrow>
   restore_keys E ks w restored = (restored, w)"
  by (induction ks) (simp_all add: restore_key_skipped)

text \<open>
  C10. In the cache stage of the restoration a key whose extracted logical key contains
  \<^verbatim>\<open>connecting_time\<close>, \<^verbatim>\<open>restored\<close>, \<^verbatim>\<open>creds\<close> or a hyphen is passed over: nothing is read,
  nothing is restored, the count stays. So a run over such keys only leaves everything as
  it was, and an instance whose cache key contains a hyphen is not restored from its key,
  whatever record the key holds.
\<close>

theorem C10_auxiliary_and_hyphen_keys_passed_over:
  "(skipped instanceKey \<longleftrightarrow>
      str_includes instanceKey ''connecting_time'' \<or> str_includes instanceKey ''restored'' \<or>
      str_includes instanceKey ''creds'' \<or> str_includes instanceKey ''-'') \<and>
   ((\<forall>fullKey \<in> set ks. skipped (extracted fullKey)) \<longrightarrow>
      restore_keys E ks w restored = (restored, w)) \<and>
   (CHR '':'' \<notin> set (PREFIX_KEY (conf E)) \<and> module (conf E) = ''instance'' \<and>
    str_includes k ''-'' \<longrightarrow>
      restore_key E (buildKey (conf E) k) w restored = (restored, w))"
proof (intro conjI impI)
  show "skipped instanceKey \<longleftrightarrow>
      str_includes instanceKey ''connecting_time'' \<or> str_includes instanceKey ''restored'' \<or>
      str_includes instanceKey ''creds'' \<or> str_includes instanceKey ''-''"
    by (simp add: skipped_def)
next
  assume "\<forall>fullKey \<in> set ks. skipped (extracted fullKey)"
  then show "restore_keys E ks w restored = (restored, w)"
    by (rule restore_keys_skipped)
next
  assume a: "CHR '':'' \<notin> set (PREFIX_KEY (conf E)) \<and> module (conf E) = ''instance'' \<and>
    str_includes k ''-''"
  then have "extracted (buildKey (conf E) k) = k"
    by (intro extracted_buildKey) simp_all
  moreover from a have "skipped k"
    by (simp add: skipped_def)
  ultimately show "restore_key E (buildKey (conf E) k) w restored = (restored, w)"
    by (simp add: restore_key_skipped)
qed

theorem C10_auxiliary_and_hyphen_keys_passed_over_witness:
  "skipped (extracted ''evolution_cache:instance:my-instance'') \<and>
   skipped (extracted ''evolution_cache:instance:connecting_time:alpha'') \<and>
   restore_keys sample_env [''evolution_cache:instance:my-instance'',
                            ''evolution_cache:instance:connecting_time:alpha''] empty_world 0
     = (0, empty_world) \<and>
   CHR '':'' \<notin> set (PREFIX_KEY (conf sample_env)) \<and> module (conf sample_env) = ''instance'' \<and>
   str_includes ''my-instance'' ''-'' \<and>
   restore_key sample_env (buildKey (conf sample_env) ''my-instance'') empty_world 0
     = (0, empty_world)"
proof -
  have h1: "\<forall>fullKey \<in> set [''evolution_cache:instance:my-instance'',
                      ''evolution_cache:instance:connecting_time:alpha''].
      skipped (extracted fullKey)"
    by (simp add: extracted_def skipped_def)
  have h2: "CHR '':'' \<notin> set (PREFIX_KEY (conf sample_env)) \<and>
      module (conf sample_env) = ''instance'' \<and> str_includes ''my-instance'' ''-''"
    by (simp add: sample_env_def sample_conf_def)
  have h3: "skipped (extracted ''evolution_cache:instance:my-instance'') \<and>
      skipped (extracted ''evolution_cache:instance:connecting_time:alpha'')"
    using h1 by simp
  show ?thesis
    using h1 h2 h3
      C10_auxiliary_and_hyphen_keys_passed_over
        [of _ "[''evolution_cache:instance:my-instance'',
                ''evolution_cache:instance:connecting_time:alpha'']"
            sample_env empty_world 0 "''my-instance''"]
    by blast
qed

subsection \<open>What the primitives leave alone\<close>

lemma emit_simps [simp]:
  "waInstances (emit e w) = waInstances w" "cache (emit e w) = cache w"
  "prisma (emit e w) = prisma w" "events (emit e w) = events w @ [e]"
  "isShuttingDown (emit e w) = isShuttingDown w"
  by (simp_all add: emit_def)

lemma modify_instance_simps [simp]:
  "cache (modify_instance name f w) = cache w" "prisma (modify_instance name f w) = prisma w"
  "events (modify_instance name f w) = events w"
  "isShuttingDown (modify_instance name f w) = isShuttingDown w"
  by (simp_all add: modify_instance_def)

lemma map_of_modified:
  "map_of (map (\<lambda>(n, i). if n = name then (n, f i) else (n, i)) al) m =
     (if m = name then map_option f (map_of al m) else map_of al m)"
  by (induction al) auto

lemma lookup_modify_instance [simp]:
  "map_of (waInstances (modify_instance name f w)) m =
     (if m = name then map_option f (map_of (waInstances w) m) else map_of (waInstances w) m)"
  by (simp add: modify_instance_def map_of_modified)

lemma names_modify_instance [simp]:
  "map fst (waInstances (modify_instance name f w)) = map fst (waInstances w)"
  by (simp add: modify_instance_def comp_def case_prod_beta)

lemma set_state_simps [simp]:
  "cache (set_state name s w) = cache w" "prisma (set_state name s w) = prisma w"
  "events (set_state name s w) = events w"
  "isShuttingDown (set_state name s w) = isShuttingDown w"
  "map fst (waInstances (set_state name s w)) = map fst (waInstances w)"
  "map_of (waInstances (set_state name s w)) m =
     (if m = name then map_option (\<lambda>i. i\<lparr>stateConnection := s\<rparr>) (map_of (waInstances w) m)
      else map_of (waInstances w) m)"
  by (simp_all add: set_state_def)

lemma read_status_simps [simp]:
  "cache (read_status E name w) = cache w" "prisma (read_status E name w) = prisma w"
  "events (read_status E name w) = events w"
  "isShuttingDown (read_status E name w) = isShuttingDown w"
  "map fst (waInstances (read_status E name w)) = map fst (waInstances w)"
  "map_of (waInstances (read_status E name w)) m =
     (if m = name
      then map_option (\<lambda>i. i\<lparr>stateConnection := status_read E i\<rparr>) (map_of (waInstances w) m)
      else map_of (waInstances w) m)"
  by (simp_all add: read_status_def)

lemma close_ws_simps [simp]:
  "cache (close_ws name w) = cache w" "prisma (close_ws name w) = prisma w"
  "isShuttingDown (close_ws name w) = isShuttingDown w"
  "map fst (waInstances (close_ws name w)) = map fst (waInstances w)"
  by (simp_all add: close_ws_def split: option.splits)


lemma cache_set_simps [simp]:
  "waInstances (snd (cache_set E k v ttl w)) = waInstances w"
  "prisma (snd (cache_set E k v ttl w)) = prisma w"
  "events (snd (cache_set E k v ttl w)) = events w"
  "isShuttingDown (snd (cache_set E k v ttl w)) = isShuttingDown w"
  by (simp_all add: cache_set_def split: prod.splits sum.splits)

lemma cache_get_simps [simp]:
  "waInstances (snd (cache_get E k w)) = waInstances w"
  "prisma (snd (cache_get E k w)) = prisma w"
  "events (snd (cache_get E k w)) = events w"
  "isShuttingDown (snd (cache_get E k w)) = isShuttingDown w"
  by (simp_all add: cache_get_def split: prod.splits)

lemma cache_delete_simps [simp]:
  "waInstances (cache_delete E k w) = waInstances w"
  "prisma (cache_delete E k w) = prisma w"
  "events (cache_delete E k w) = events w"
  "isShuttingDown (cache_delete E k w) = isShuttingDown w"
  by (simp_all add: cache_delete_def)

lemma db_update_simps [simp]:
  "waInstances (snd (db_update ident change w)) = waInstances w"
  "cache (snd (db_update ident change w)) = cache w"
  "events (snd (db_update ident change w)) = events w"
  "isShuttingDown (snd (db_update ident change w)) = isShuttingDown w"
  "queries (prisma (snd (db_update ident change w))) = queries (prisma w) @ [Update ident]"
  "db_up (prisma (snd (db_update ident change w))) = db_up (prisma w)"
  by (simp_all add: db_update_def update_row_def asked_def Let_def split: prod.splits)


subsection \<open>The registry object\<close>

lemma lookup_Own [simp]: "lookup obj name = Own v \<longleftrightarrow> map_of obj name = Some v"
  by (simp add: lookup_def split: option.splits)

lemma lookup_Undefined:
  "lookup obj name = Undefined \<longleftrightarrow> name \<notin> fst ` set obj \<and> \<not> inherited name"
proof (cases "map_of obj name")
  case None
  then have "name \<notin> fst ` set obj"
    by (simp add: map_of_eq_None_iff)
  with None show ?thesis by (simp add: lookup_def)
next
  case (Some v)
  then have "name \<in> fst ` set obj"
    by (metis map_of_eq_None_iff option.distinct(1))
  with Some show ?thesis by (simp add: lookup_def)
qed

lemma set_Object_keys [simp]: "set (Object_keys obj) = fst ` set obj"
  by (auto simp: Object_keys_def)

lemma Object_keys_names: "map fst obj' = map fst obj \<Longrightarrow> Object_keys obj' = Object_keys obj"
  by (simp add: Object_keys_def)

lemma lookup_registered [simp]: "map_of obj name = Some v \<Longrightarrow> lookup obj name \<noteq> Undefined"
  by (simp add: lookup_def)

lemma proto_inherited [simp]: "inherited ''__proto__''"
  by (simp add: inherited_def prototype_names_def)

lemma modify_same:
  "distinct (map fst al) \<Longrightarrow> map_of al name = Some i \<Longrightarrow> f i = i \<Longrightarrow>
   map (\<lambda>(n, j). if n = name then (n, f j) else (n, j)) al = al"
proof (induction al)
  case Nil
  then show ?case by simp
next
  case (Cons p al)
  obtain n j where p: "p = (n, j)" by (cases p)
  show ?case
  proof (cases "n = name")
    case True
    with Cons.prems p have j: "j = i" and "name \<notin> fst ` set al" by auto
    then have "\<forall>q \<in> set al. fst q \<noteq> name" by auto
    then have "map (\<lambda>(n, j). if n = name then (n, f j) else (n, j)) al = al"
      by (intro map_idI) (auto split: prod.splits)
    with True p j Cons.prems(3) show ?thesis by simp
  next
    case False
    with Cons p show ?thesis by simp
  qed
qed

lemma read_of_the_same_state:
  assumes "distinct (map fst (waInstances w))" and "map_of (waInstances w) name = Some i"
    and "status_read E i = stateConnection i"
  shows "read_status E name w = w"
  using modify_same [OF assms(1,2), of "\<lambda>j. j\<lparr>stateConnection := status_read E j\<rparr>"] assms(3)
  by (simp add: read_status_def modify_instance_def)

subsection \<open>The guard of the send path\<close>

lemma guard_rejects:
  assumes "map_of (waInstances w) name = Some i" and "status_read E i \<noteq> ''open''"
  shows "validateInstanceReady E w name = rejection E w name i"
  using assms by (simp add: validateInstanceReady_def rejection_def lookup_def Let_def)

lemma guard_inherited_name:
  assumes "map_of (waInstances w) name = None" and "inherited name"
  shows "validateInstanceReady E w name =
           (Inl (BadRequestException (not_ready_message name [])), w)"
  using assms by (simp add: validateInstanceReady_def lookup_def)

text \<open>
  C9. Every send operation of the controller, requested for a registered instance whose
  declared state, as the read of it returns it, is not \<^verbatim>\<open>open\<close>, is turned down by the
  guard before anything else happens: the result is a bad-request error whose message
  contains the name of the instance and that state (\<^verbatim>\<open>unknown\<close> when it is undefined),
  and the world is the one the read left. No operation of a channel is called (the events
  are as they were), the registry holds the same names, every other instance is as it
  was, and the instance itself holds the state the read returned; when that is the state
  it held before, the world is unchanged altogether.
\<close>

theorem C9_send_rejected_when_not_open:
  assumes "map_of (waInstances w) name = Some i" and "status_read E i \<noteq> ''open''"
  shows "sendTemplate E w name = rejection E w name i \<and>
         sendText E w name = rejection E w name i \<and>
         sendMedia E w name media fileName mediatype file = rejection E w name i \<and>
         sendPtv E w name video file = rejection E w name i \<and>
         sendSticker E w name sticker file = rejection E w name i \<and>
         sendWhatsAppAudio E w name audio file = rejection E w name i \<and>
         sendButtons E w name = rejection E w name i \<and>
         sendLocation E w name = rejection E w name i \<and>
         sendList E w name = rejection E w name i \<and>
         sendContact E w name = rejection E w name i \<and>
         sendReaction E w name reaction = rejection E w name i \<and>
         sendPoll E w name = rejection E w name i \<and>
         sendStatus E w name = rejection E w name i \<and>
         fst (rejection E w name i) =
           Inl (BadRequestException (not_ready_message name (status_read E i))) \<and>
         str_includes (not_ready_message name (status_read E i)) name \<and>
         str_includes (not_ready_message name (status_read E i))
           (if status_read E i \<noteq> [] then status_read E i else ''unknown'') \<and>
         events (snd (rejection E w name i)) = events w \<and>
         map fst (waInstances (snd (rejection E w name i))) = map fst (waInstances w) \<and>
         map_of (waInstances (snd (rejection E w name i))) name =
           Some (i\<lparr>stateConnection := status_read E i\<rparr>) \<and>
         (\<forall>other. other \<noteq> name \<longrightarrow>
            map_of (waInstances (snd (rejection E w name i))) other =
              map_of (waInstances w) other) \<and>
         (status_read E i = stateConnection i \<and> distinct (map fst (waInstances w)) \<longrightarrow>
            snd (rejection E w name i) = w)"
proof -
  note g = guard_rejects [OF assms]
  have senders:
    "sendTemplate E w name = rejection E w name i"
    "sendText E w name = rejection E w name i"
    "sendMedia E w name media fileName mediatype file = rejection E w name i"
    "sendPtv E w name video file = rejection E w name i"
    "sendSticker E w name sticker file = rejection E w name i"
    "sendWhatsAppAudio E w name audio file = rejection E w name i"
    "sendButtons E w name = rejection E w name i"
    "sendLocation E w name = rejection E w name i"
    "sendList E w name = rejection E w name i"
    "sendContact E w name = rejection E w name i"
    "sendReaction E w name reaction = rejection E w name i"
    "sendPoll E w name = rejection E w name i"
    "sendStatus E w name = rejection E w name i"
    by (simp_all add: sendTemplate_def sendText_def sendMedia_def sendPtv_def sendSticker_def
        sendWhatsAppAudio_def sendButtons_def sendLocation_def sendList_def sendContact_def
        sendReaction_def sendPoll_def sendStatus_def g)
       (simp_all add: rejection_def)
  have m1: "not_ready_message name (status_read E i) = (''Instance '' @ quote) @ name @
      (quote @ '' is not ready for message sending. '' @ ''Current state: '' @
      (if status_read E i \<noteq> [] then status_read E i else ''unknown'') @
      ''. Please wait for the instance to connect.'')"
    by (simp add: not_ready_message_def)
  have i1: "str_includes (not_ready_message name (status_read E i)) name"
    unfolding m1 by (simp only: includes_mid)
  have m2: "not_ready_message name (status_read E i) =
      (''Instance '' @ quote @ name @ quote @ '' is not ready for message sending. '' @
       ''Current state: '') @ (if status_read E i \<noteq> [] then status_read E i else ''unknown'') @
      ''. Please wait for the instance to connect.''"
    by (simp add: not_ready_message_def)
  have i2: "str_includes (not_ready_message name (status_read E i))
           (if status_read E i \<noteq> [] then status_read E i else ''unknown'')"
    unfolding m2 by (simp only: includes_mid)
  have w1: "events (snd (rejection E w name i)) = events w"
    "map fst (waInstances (snd (rejection E w name i))) = map fst (waInstances w)"
    "fst (rejection E w name i) =
       Inl (BadRequestException (not_ready_message name (status_read E i)))"
    by (simp_all add: rejection_def)
  have w2: "map_of (waInstances (snd (rejection E w name i))) name =
           Some (i\<lparr>stateConnection := status_read E i\<rparr>)"
    using assms(1) by (simp add: rejection_def)
  have w3: "\<forall>other. other \<noteq> name \<longrightarrow>
            map_of (waInstances (snd (rejection E w name i))) other = map_of (waInstances w) other"
    by (simp add: rejection_def)
  have w4: "status_read E i = stateConnection i \<and> distinct (map fst (waInstances w)) \<longrightarrow>
            snd (rejection E w name i) = w"
    using read_of_the_same_state [OF _ assms(1)] by (auto simp: rejection_def)
  show ?thesis
    using senders i1 i2 w1 w2 w3 w4 by blast
qed

theorem C9_send_rejected_when_not_open_witness:
  "map_of (waInstances cache_down_world) ''alpha'' = Some alpha_closed \<and>
   status_read sample_env alpha_closed \<noteq> ''open'' \<and>
   status_read sample_env alpha_closed = stateConnection alpha_closed \<and>
   distinct (map fst (waInstances cache_down_world)) \<and>
   sendText sample_env cache_down_world ''alpha'' =
     (Inl (BadRequestException (not_ready_message ''alpha'' ''close'')), cache_down_world) \<and>
   sendMedia sample_env cache_down_world ''alpha'' ''https://example.org/a.png'' [] ''image'' False =
     (Inl (BadRequestException (not_ready_message ''alpha'' ''close'')), cache_down_world) \<and>
   sendReaction sample_env cache_down_world ''alpha'' [0x1F44D] =
     (Inl (BadRequestException (not_ready_message ''alpha'' ''close'')), cache_down_world) \<and>
   sendStatus sample_env cache_down_world ''alpha'' =
     (Inl (BadRequestException (not_ready_message ''alpha'' ''close'')), cache_down_world)"
proof -
  have h1: "map_of (waInstances cache_down_world) ''alpha'' = Some alpha_closed"
    by (simp add: cache_down_world_def)
  have h2: "status_read sample_env alpha_closed \<noteq> ''open''"
    by (simp add: sample_env_def alpha_closed_def fresh_channel_def)
  have h3: "status_read sample_env alpha_closed = stateConnection alpha_closed \<and>
      stateConnection alpha_closed = ''close'' \<and> status_read sample_env alpha_closed = ''close''"
    by (simp add: sample_env_def alpha_closed_def fresh_channel_def)
  have h4: "distinct (map fst (waInstances cache_down_world))"
    by (simp add: cache_down_world_def)
  note t = C9_send_rejected_when_not_open [OF h1 h2]
  have r: "rejection sample_env cache_down_world ''alpha'' alpha_closed =
      (Inl (BadRequestException (not_ready_message ''alpha'' ''close'')), cache_down_world)"
    using t [of "[]" "[]" "[]" False "[]" "[]" "[]" "[]"] h3 h4
    by (metis prod.collapse)
  show ?thesis
    using h1 h2 h3 h4 r
      t [of "''https://example.org/a.png''" "[]" "''image''" False "[]" "[]" "[]" "[0x1F44D]"]
    by simp
qed

subsection \<open>The correction of a false disconnect\<close>







subsection \<open>Persisting an instance record\<close>

lemma set_cache_log_no_ttl:
  "filter expiring (log (snd (set_cache c r k v (Some 0)))) = filter expiring (log r)"
  by (auto simp: set_cache_def write_value_def client_set_def write_string_def
      handleWrongTypeError_def client_type_def client_del_def Let_def
      split: option.splits rvalue.splits)

lemma write_value_string_or_absent:
  "up r \<Longrightarrow> \<not> holds_hash r k \<Longrightarrow>
   write_value c r k v ttl =
     (Inr (), (sent r (write_command c k v ttl))
        \<lparr>store := AList.update k \<lparr>val = RString v, expiry = write_expiry c ttl\<rparr> (store r)\<rparr>)"
  by (auto simp: write_value_def write_command_def write_expiry_def client_set_def
      client_setEx_def write_string_def holds_hash_def Let_def
      split: option.splits rvalue.splits)

lemma set_cache_stored:
  assumes "up r"
  shows "map_of (store (snd (set_cache c r k v ttl))) (buildKey c k) =
           Some \<lparr>val = RString v, expiry = write_expiry c ttl\<rparr>"
proof (cases "holds_hash r (buildKey c k)")
  case True
  with assms have "fst (write_value c r (buildKey c k) v ttl) = Inl WRONGTYPE"
    by (simp add: write_value_wrongtype)
  then show ?thesis by (rule set_repair(3))
next
  case False
  with assms show ?thesis
    by (simp add: set_cache_def write_value_string_or_absent AList.update_conv')
qed


lemma cache_of_cache_set [simp]:
  "cache (snd (cache_set E k v ttl w)) = snd (set_cache (conf E) (cache w) k v ttl)"
  by (simp add: cache_set_def split: prod.splits sum.splits)


lemma persist_cache:
  "REDIS_ENABLED E \<and> SAVE_INSTANCES E \<Longrightarrow>
   cache (persistInstanceState E name d w) =
     snd (set_cache (conf E) (cache w) (cacheKey_of name d) (PData d) (Some 0))"
  by (cases "cache_set E (cacheKey_of name d) (PData d) (Some 0) w")
     (auto simp: persistInstanceState_def cacheKey_of_def Let_def split: sum.splits
        dest: arg_cong [where f = "\<lambda>p. cache (snd p)"])

lemma restoreInstance_registers:
  assumes "instanceName d \<noteq> []" and "lookup (waInstances w) (instanceName d) = Undefined"
    and "init E d = Some i" and "connect_ok E (instanceName d)"
  shows "cache (snd (restoreInstance E d w)) =
           snd (set_cache (conf E) (cache w) (''restored:'' @ instanceName d) (PText ''true'') (Some 300))"
  using assms by (simp add: restoreInstance_def setInstance_def Let_def)



subsection \<open>What a restoration keeps\<close>

lemma stages_append [simp]: "stages (xs @ ys) = stages xs @ stages ys"
  by (induction xs rule: stages.induct) simp_all

lemma kept_refl [simp]: "kept w w"
  by (simp add: kept_def)

lemma kept_trans: "kept w w1 \<Longrightarrow> kept w1 w2 \<Longrightarrow> kept w w2"
  by (auto simp: kept_def intro: map_le_trans)

lemma kept_same:
  "waInstances w' = waInstances w \<Longrightarrow> stages (events w') = stages (events w) \<Longrightarrow>
   rows (prisma w') = rows (prisma w) \<Longrightarrow> db_up (prisma w') = db_up (prisma w) \<Longrightarrow> kept w w'"
  by (simp add: kept_def)

lemma kept_cache_set [simp]: "kept w (snd (cache_set E k v ttl w))"
  by (simp add: kept_same)

lemma kept_cache_get [simp]: "kept w (snd (cache_get E k w))"
  by (simp add: kept_same)

lemma kept_cache_update [simp]: "kept w (w\<lparr>cache := r\<rparr>)"
  by (simp add: kept_same)

lemma setInstance_registry:
  "waInstances (snd (setInstance E d w)) = waInstances w \<or>
   (\<exists>i. waInstances (snd (setInstance E d w)) = AList.update (instanceName d) i (waInstances w))"
  by (auto simp: setInstance_def Let_def split: option.splits)

lemma setInstance_frame [simp]:
  "stages (events (snd (setInstance E d w))) = stages (events w)"
  "prisma (snd (setInstance E d w)) = prisma w"
  "cache (snd (setInstance E d w)) = cache w"
  by (auto simp: setInstance_def Let_def split: option.splits)

lemma setInstance_kept:
  assumes "map_of (waInstances w) (instanceName d) = None"
  shows "kept w (snd (setInstance E d w))"
proof -
  from setInstance_registry [of E d w]
  have "map_of (waInstances w) \<subseteq>\<^sub>m map_of (waInstances (snd (setInstance E d w))) \<and>
        (distinct (map fst (waInstances w)) \<longrightarrow>
           distinct (map fst (waInstances (snd (setInstance E d w)))))"
  proof
    assume "waInstances (snd (setInstance E d w)) = waInstances w"
    then show ?thesis by simp
  next
    assume "\<exists>i. waInstances (snd (setInstance E d w)) = AList.update (instanceName d) i (waInstances w)"
    then obtain i where
      u: "waInstances (snd (setInstance E d w)) = AList.update (instanceName d) i (waInstances w)"
      by blast
    have "map_of (waInstances w) \<subseteq>\<^sub>m (map_of (waInstances w))(instanceName d \<mapsto> i)"
      using assms by (auto simp: map_le_def)
    then show ?thesis
      by (simp add: u AList.update_conv' AList.distinct_update)
  qed
  then show ?thesis by (simp add: kept_def)
qed

lemma restoreInstance_kept: "kept w (snd (restoreInstance E d w))"
proof (cases "instanceName d = [] \<or> lookup (waInstances w) (instanceName d) \<noteq> Undefined")
  case True
  then show ?thesis by (auto simp: restoreInstance_def)
next
  case False
  then have "map_of (waInstances w) (instanceName d) = None"
    by (simp add: lookup_Undefined map_of_eq_None_iff)
  then have k1: "kept w (snd (setInstance E d w))"
    by (rule setInstance_kept)
  obtain res w1 where s: "setInstance E d w = (res, w1)"
    by (cases "setInstance E d w")
  show ?thesis
  proof (cases res)
    case (Inl e)
    with False s k1 show ?thesis by (simp add: restoreInstance_def)
  next
    case (Inr u)
    have "kept w1 (snd (cache_set E (''restored:'' @ instanceName d) (PText ''true'') (Some 300) w1))"
      by simp
    with k1 s have "kept w (snd (cache_set E (''restored:'' @ instanceName d) (PText ''true'') (Some 300) w1))"
      by (auto intro: kept_trans)
    with False s Inr show ?thesis by (simp add: restoreInstance_def)
  qed
qed

text \<open>A restoration attempt for a registered name does nothing at all.\<close>

lemma restoreInstance_registered:
  "map_of (waInstances w) (instanceName d) = Some i \<Longrightarrow> restoreInstance E d w = (Inr (), w)"
  by (simp add: restoreInstance_def)

lemma restore_rows_kept: "kept w (snd (restore_rows E rs w restored))"
proof (induction rs arbitrary: w restored)
  case Nil
  show ?case by simp
next
  case (Cons row rs)
  obtain res w1 where r: "restoreInstance E (dto_of_row row) w = (res, w1)"
    by (cases "restoreInstance E (dto_of_row row) w")
  have k1: "kept w w1"
    using restoreInstance_kept [of w E "dto_of_row row"] r by simp
  show ?case
  proof (cases res)
    case (Inl e)
    then show ?thesis
      using r k1 Cons.IH [of w1 restored] by (auto intro: kept_trans)
  next
    case (Inr u)
    then show ?thesis
      using r k1 Cons.IH [of w1 "restored + 1"] by (auto intro: kept_trans)
  qed
qed

lemma findMany_restorable_frame:
  "db_up d \<Longrightarrow> fst (findMany_restorable d cn) =
     Inr (filter (\<lambda>row. row_clientName row = cn \<and> restorable row) (rows d))"
  "rows (snd (findMany_restorable d cn)) = rows d"
  "db_up (snd (findMany_restorable d cn)) = db_up d"
  "queries (snd (findMany_restorable d cn)) = queries d @ [FindMany cn]"
  by (auto simp: findMany_restorable_def asked_def Let_def)

lemma kept_prisma_asked:
  "rows d = rows (prisma w) \<Longrightarrow> db_up d = db_up (prisma w) \<Longrightarrow> kept w (w\<lparr>prisma := d\<rparr>)"
  by (simp add: kept_same)

lemma restoreFromDatabase_kept:
  "kept (emit (Info ''Attempting to restore sessions from database'') w)
        (snd (restoreFromDatabase E cn w))"
proof -
  let ?w0 = "emit (Info ''Attempting to restore sessions from database'') w"
  obtain res d where f: "findMany_restorable (prisma ?w0) cn = (res, d)"
    by (cases "findMany_restorable (prisma ?w0) cn")
  have k0: "kept ?w0 (?w0\<lparr>prisma := d\<rparr>)"
    using findMany_restorable_frame(2,3) [of "prisma ?w0" cn] f
    by (intro kept_prisma_asked) simp_all
  show ?thesis
  proof (cases res)
    case (Inl e)
    with f k0 show ?thesis by (simp add: restoreFromDatabase_def Let_def)
  next
    case (Inr instances)
    have "kept ?w0 (snd (restore_rows E instances (?w0\<lparr>prisma := d\<rparr>) 0))"
      using k0 restore_rows_kept by (rule kept_trans)
    with f k0 Inr show ?thesis by (simp add: restoreFromDatabase_def Let_def)
  qed
qed

lemma findInstanceInDatabase_kept: "kept w (snd (findInstanceInDatabase E k w))"
  by (auto simp: findInstanceInDatabase_def findFirst_key_def asked_def Let_def
      intro!: kept_same)

lemma database_fallback_kept: "kept w (snd (database_fallback E k w restored))"
proof (cases "SAVE_DATA_INSTANCE E")
  case False
  then show ?thesis by (simp add: database_fallback_def)
next
  case True
  obtain found w1 where f: "findInstanceInDatabase E k w = (found, w1)"
    by (cases "findInstanceInDatabase E k w")
  have k1: "kept w w1"
    using findInstanceInDatabase_kept [of w E k] f by simp
  show ?thesis
  proof (cases found)
    case None
    with True f k1 show ?thesis by (simp add: database_fallback_def)
  next
    case (Some dbInstance)
    have "kept w (snd (restoreInstance E dbInstance w1))"
      using k1 restoreInstance_kept by (rule kept_trans)
    with True f Some show ?thesis
      by (auto simp: database_fallback_def split: prod.splits sum.splits)
  qed
qed

lemma restore_parsed_kept: "kept w (snd (restore_parsed E k parsedData w restored))"
proof (cases parsedData)
  case None
  then show ?thesis by (simp add: restore_parsed_def)
next
  case (Some d)
  show ?thesis
  proof (cases "instanceName d \<noteq> [] \<or> instanceId d \<noteq> []")
    case False
    with Some show ?thesis by (simp add: restore_parsed_def)
  next
    case True
    obtain res w1 where r: "restoreInstance E d w = (res, w1)"
      by (cases "restoreInstance E d w")
    have k1: "kept w w1"
      using restoreInstance_kept [of w E d] r by simp
    have "kept w (snd (database_fallback E k w1 restored))"
      using k1 database_fallback_kept by (rule kept_trans)
    with Some True r k1 show ?thesis
      by (cases res) (simp_all add: restore_parsed_def)
  qed
qed

lemma restore_key_kept: "kept w (snd (restore_key E fullKey w restored))"
proof -
  let ?k = "join '':'' (drop 2 (split CHR '':'' fullKey))"
  obtain v w1 where g: "cache_get E ?k w = (v, w1)"
    by (cases "cache_get E ?k w")
  have k1: "kept w w1"
    using kept_cache_get [of w E ?k] g by simp
  have a: "kept w (snd (database_fallback E ?k w1 restored))"
    using k1 database_fallback_kept by (rule kept_trans)
  have b: "\<And>p. kept w (snd (restore_parsed E ?k p w1 restored))"
    using k1 restore_parsed_kept by (rule kept_trans)
  show ?thesis
    using g k1 a b
    by (auto simp: restore_key_def Let_def split: option.splits payload.splits)
qed

lemma restore_keys_kept: "kept w (snd (restore_keys E ks w restored))"
proof (induction ks arbitrary: w restored)
  case Nil
  show ?case by simp
next
  case (Cons fullKey ks)
  obtain n1 w1 where r: "restore_key E fullKey w restored = (n1, w1)"
    by (cases "restore_key E fullKey w restored")
  have "kept w w1"
    using restore_key_kept [of w E fullKey restored] r by simp
  then have "kept w (snd (restore_keys E ks w1 n1))"
    using Cons.IH by (rule kept_trans)
  with r show ?case by simp
qed

lemma restoreFromRedisCache_kept:
  "kept (emit (Info ''Attempting to restore sessions from Redis cache'') w)
        (snd (restoreFromRedisCache E w))"
proof -
  let ?w0 = "emit (Info ''Attempting to restore sessions from Redis cache'') w"
  have "\<And>r ks. kept ?w0 (snd (restore_keys E ks (?w0\<lparr>cache := r\<rparr>) 0))"
    using kept_cache_update restore_keys_kept by (rule kept_trans)
  then show ?thesis
    by (auto simp: restoreFromRedisCache_def Let_def split: prod.splits option.splits)
qed

lemma cache_get_result:
  "cache_get E k w = (v, w1) \<Longrightarrow>
   waInstances w1 = waInstances w \<and> events w1 = events w \<and> prisma w1 = prisma w"
  by (auto simp: cache_get_def split: prod.splits)

lemma verify_names_frame:
  "waInstances (verify_names E ns w) = waInstances w \<and>
   stages (events (verify_names E ns w)) = stages (events w) \<and>
   prisma (verify_names E ns w) = prisma w"
proof (induction ns arbitrary: w)
  case Nil
  show ?case by simp
next
  case (Cons name ns)
  obtain v w1 where g: "cache_get E (''restored:'' @ name) w = (v, w1)"
    by (cases "cache_get E (''restored:'' @ name) w")
  note f = cache_get_result [OF g]
  have step: "verify_names E (name # ns) w =
      verify_names E ns (if truthy v then emit (ScheduleVerification name 10000) w1 else w1)"
    using g by (simp del: append.simps)
  show ?case
    unfolding step using f Cons.IH by (cases "truthy v") simp_all
qed

lemma kept_lookup:
  "kept w w' \<Longrightarrow> map_of (waInstances w) name = Some i \<Longrightarrow> map_of (waInstances w') name = Some i"
  by (auto simp: kept_def map_le_def dom_def)

lemma kept_emit_left:
  "kept (emit e w) w' \<Longrightarrow>
   map_of (waInstances w) \<subseteq>\<^sub>m map_of (waInstances w') \<and>
   (distinct (map fst (waInstances w)) \<longrightarrow> distinct (map fst (waInstances w'))) \<and>
   stages (events w') = stages (events w) @ stages [e] \<and>
   rows (prisma w') = rows (prisma w) \<and> db_up (prisma w') = db_up (prisma w)"
  by (simp add: kept_def)

text \<open>The run, stage by stage.\<close>

lemma restoreAllSessions_stages:
  "restoreAllSessions E w =
     (fst (cache_stage E w) + fst (database_stage E w),
      verifyRestoredConnections E
        (if fst (cache_stage E w) + fst (database_stage E w) = 0
         then snd (restoreFromProviderFiles (snd (database_stage E w)))
         else snd (database_stage E w)))"
  by (simp add: restoreAllSessions_def cache_stage_def database_stage_def
      restoreFromProviderFiles_def Let_def split: prod.splits)

lemma cache_stage_keeps:
  "map_of (waInstances w) \<subseteq>\<^sub>m map_of (waInstances (snd (cache_stage E w))) \<and>
   (distinct (map fst (waInstances w)) \<longrightarrow> distinct (map fst (waInstances (snd (cache_stage E w))))) \<and>
   stages (events (snd (cache_stage E w))) =
     stages (events w) @
     (if REDIS_ENABLED E \<and> SAVE_INSTANCES E
      then [''Attempting to restore sessions from Redis cache''] else []) \<and>
   rows (prisma (snd (cache_stage E w))) = rows (prisma w) \<and>
   db_up (prisma (snd (cache_stage E w))) = db_up (prisma w)"
  using kept_emit_left [OF restoreFromRedisCache_kept, of w E]
  by (simp add: cache_stage_def)

lemma database_stage_keeps:
  "map_of (waInstances (snd (cache_stage E w))) \<subseteq>\<^sub>m map_of (waInstances (snd (database_stage E w))) \<and>
   (distinct (map fst (waInstances (snd (cache_stage E w)))) \<longrightarrow>
      distinct (map fst (waInstances (snd (database_stage E w))))) \<and>
   stages (events (snd (database_stage E w))) =
     stages (events (snd (cache_stage E w))) @
     (if SAVE_DATA_INSTANCE E then [''Attempting to restore sessions from database''] else [])"
  using kept_emit_left [OF restoreFromDatabase_kept, of "snd (cache_stage E w)" E "CLIENT_NAME E"]
  by (simp add: database_stage_def)

lemma restoreAllSessions_registry:
  "waInstances (snd (restoreAllSessions E w)) = waInstances (snd (database_stage E w))"
  by (simp add: restoreAllSessions_stages verifyRestoredConnections_def verify_names_frame
      restoreFromProviderFiles_def)

lemma restoreAllSessions_keeps:
  "map_of (waInstances w) \<subseteq>\<^sub>m map_of (waInstances (snd (restoreAllSessions E w))) \<and>
   (distinct (map fst (waInstances w)) \<longrightarrow>
      distinct (map fst (waInstances (snd (restoreAllSessions E w)))))"
  using cache_stage_keeps [of w E] database_stage_keeps [of E w]
  by (auto simp: restoreAllSessions_registry intro: map_le_trans)

lemma map_le_lookup: "m \<subseteq>\<^sub>m m' \<Longrightarrow> m k = Some v \<Longrightarrow> m' k = Some v"
  by (auto simp: map_le_def dom_def)

subsection \<open>Registering the records of the durable tier\<close>

lemma restoreInstance_names:
  "fst ` set (waInstances (snd (restoreInstance E d w))) =
     fst ` set (waInstances w) \<union>
     (if instanceName d \<noteq> [] \<and> lookup (waInstances w) (instanceName d) = Undefined \<and>
         init E d \<noteq> None \<and> connect_ok E (instanceName d)
      then {instanceName d} else {})"
proof (cases "instanceName d \<noteq> [] \<and> lookup (waInstances w) (instanceName d) = Undefined")
  case False
  then show ?thesis by (auto simp: restoreInstance_def)
next
  case True
  then have p: "instanceName d \<noteq> ''__proto__''"
    using proto_inherited by (auto simp: lookup_Undefined)
  have r: "waInstances (snd (restoreInstance E d w)) = waInstances (snd (setInstance E d w))"
    using True by (cases "setInstance E d w") (auto simp: restoreInstance_def split: sum.splits)
  show ?thesis
  proof (cases "init E d")
    case None
    with True show ?thesis by (simp add: r setInstance_def)
  next
    case (Some i)
    with True p show ?thesis
      by (auto simp: r setInstance_def Let_def AList.dom_update)
  qed
qed

lemma registrable_after:
  assumes "fst ` set (waInstances w1) = fst ` set (waInstances w) \<union> A"
  shows "registrable E w1 row \<longleftrightarrow> registrable E w row \<and> row_name row \<notin> A"
  using assms by (auto simp: registrable_def lookup_Undefined)

lemma restore_rows_names:
  "fst ` set (waInstances (snd (restore_rows E rs w restored))) =
     fst ` set (waInstances w) \<union> row_name ` {row \<in> set rs. registrable E w row}"
proof (induction rs arbitrary: w restored)
  case Nil
  show ?case by simp
next
  case (Cons row rs)
  let ?A = "if registrable E w row then {row_name row} else {}"
  obtain res w1 where r: "restoreInstance E (dto_of_row row) w = (res, w1)"
    by (cases "restoreInstance E (dto_of_row row) w")
  have nm: "instanceName (dto_of_row row) = row_name row"
    by (simp add: dto_of_row_def)
  have n1: "fst ` set (waInstances w1) = fst ` set (waInstances w) \<union> ?A"
    using restoreInstance_names [of E "dto_of_row row" w] r
    by (auto simp: registrable_def nm)
  have ih: "\<And>n. fst ` set (waInstances (snd (restore_rows E rs w1 n))) =
      fst ` set (waInstances w1) \<union> row_name ` {row' \<in> set rs. registrable E w1 row'}"
    by (rule Cons.IH)
  have e: "fst ` set (waInstances w1) \<union> row_name ` {row' \<in> set rs. registrable E w1 row'} =
      fst ` set (waInstances w) \<union> row_name ` {row' \<in> set (row # rs). registrable E w row'}"
    unfolding registrable_after [OF n1] n1 by auto
  show ?case
    using r ih e by (cases res) simp_all
qed

lemma restoreFromDatabase_names:
  "fst ` set (waInstances (snd (restoreFromDatabase E (CLIENT_NAME E) w))) =
     fst ` set (waInstances w) \<union> registrable_names E w"
proof -
  let ?w0 = "emit (Info ''Attempting to restore sessions from database'') w"
  obtain res d where f: "findMany_restorable (prisma ?w0) (CLIENT_NAME E) = (res, d)"
    by (cases "findMany_restorable (prisma ?w0) (CLIENT_NAME E)")
  show ?thesis
  proof (cases "db_up (prisma w)")
    case False
    then have "res = Inl DatabaseError"
      using f by (simp add: findMany_restorable_def Let_def)
    with f False show ?thesis
      by (simp add: restoreFromDatabase_def Let_def registrable_names_def eligible_def)
  next
    case True
    then have res: "res = Inr (eligible E w)"
      using findMany_restorable_frame(1) [of "prisma ?w0" "CLIENT_NAME E"] f
      by (simp add: eligible_def)
    have g: "\<And>row. registrable E (?w0\<lparr>prisma := d\<rparr>) row = registrable E w row"
      by (simp add: registrable_def)
    have "fst ` set (waInstances (snd (restore_rows E (eligible E w) (?w0\<lparr>prisma := d\<rparr>) 0))) =
        fst ` set (waInstances w) \<union> registrable_names E w"
      by (simp add: restore_rows_names g registrable_names_def)
    then show ?thesis
      using f res by (auto simp: restoreFromDatabase_def Let_def registrable_names_def)
  qed
qed

lemma registrable_names_new:
  "registrable_names E w \<inter> fst ` set (waInstances w) = {}"
  by (auto simp: registrable_names_def registrable_def lookup_Undefined)

text \<open>
  C7. The registry holds at most one instance under a name, and a restoration made by
  the Restoration Coordinator for a name the registry already holds does nothing: such a
  call of \<open>restoreInstance\<close> returns with the state as it was, and the whole run at
  startup, the durable stage used for recovery at runtime and the cache stage keep every
  registered entry and keep the names unique. (The startup loader of the monitor,
  \<open>loadInstancesFromDatabasePostgres\<close>, registers without this check.)
\<close>

theorem C7_restoration_keeps_registered_instances:
  "(map_of (waInstances w) (instanceName d) \<noteq> None \<longrightarrow> restoreInstance E d w = (Inr (), w)) \<and>
   (map_of (waInstances w) name = Some i \<longrightarrow>
      map_of (waInstances (snd (restoreAllSessions E w))) name = Some i \<and>
      map_of (waInstances (snd (restoreFromDatabase E cn w))) name = Some i \<and>
      map_of (waInstances (snd (restoreFromRedisCache E w))) name = Some i) \<and>
   (distinct (map fst (waInstances w)) \<longrightarrow>
      distinct (map fst (waInstances (snd (restoreAllSessions E w)))))"
proof (intro conjI impI)
  assume "map_of (waInstances w) (instanceName d) \<noteq> None"
  then show "restoreInstance E d w = (Inr (), w)"
    by (auto simp: restoreInstance_registered)
next
  assume a: "map_of (waInstances w) name = Some i"
  show "map_of (waInstances (snd (restoreAllSessions E w))) name = Some i"
    using restoreAllSessions_keeps [of w E] a by (blast intro: map_le_lookup)
  show "map_of (waInstances (snd (restoreFromDatabase E cn w))) name = Some i"
    using kept_emit_left [OF restoreFromDatabase_kept, of w E cn] a
    by (blast intro: map_le_lookup)
  show "map_of (waInstances (snd (restoreFromRedisCache E w))) name = Some i"
    using kept_emit_left [OF restoreFromRedisCache_kept, of w E] a
    by (blast intro: map_le_lookup)
next
  assume "distinct (map fst (waInstances w))"
  then show "distinct (map fst (waInstances (snd (restoreAllSessions E w))))"
    using restoreAllSessions_keeps [of w E] by blast
qed

theorem C7_restoration_keeps_registered_instances_witness:
  "map_of (waInstances false_close_world) (instanceName alpha_data) \<noteq> None \<and>
   restoreInstance sample_env alpha_data false_close_world = (Inr (), false_close_world) \<and>
   map_of (waInstances false_close_world) ''alpha'' = Some alpha_closed \<and>
   map_of (waInstances (snd (restoreAllSessions sample_env false_close_world))) ''alpha'' =
     Some alpha_closed \<and>
   map_of (waInstances (snd (restoreFromDatabase sample_env ''evolution'' false_close_world))) ''alpha'' =
     Some alpha_closed \<and>
   map_of (waInstances (snd (restoreFromRedisCache sample_env false_close_world))) ''alpha'' =
     Some alpha_closed \<and>
   distinct (map fst (waInstances false_close_world)) \<and>
   distinct (map fst (waInstances (snd (restoreAllSessions sample_env false_close_world))))"
proof -
  have h1: "map_of (waInstances false_close_world) (instanceName alpha_data) \<noteq> None"
    by (simp add: false_close_world_def alpha_data_def data_of_instance_def)
  have h2: "map_of (waInstances false_close_world) ''alpha'' = Some alpha_closed"
    by (simp add: false_close_world_def)
  have h3: "distinct (map fst (waInstances false_close_world))"
    by (simp add: false_close_world_def)
  show ?thesis
    using h1 h2 h3
      C7_restoration_keeps_registered_instances
        [of false_close_world alpha_data sample_env "''alpha''" alpha_closed "''evolution''"]
    by blast
qed

text \<open>
  The startup loader is not such a restoration: for a name the registry already holds it
  creates a second channel and puts it in the place of the first.
\<close>

theorem C7_startup_loader_replaces_entry:
  "map_of (waInstances false_close_world) ''alpha'' = Some alpha_closed \<and>
   fst (loadInstancesFromDatabasePostgres sample_env false_close_world) = Inr () \<and>
   map_of (waInstances (snd (loadInstancesFromDatabasePostgres sample_env false_close_world))) ''alpha''
     \<noteq> Some alpha_closed"
  by (simp add: loadInstancesFromDatabasePostgres_def findMany_client_def asked_def setInstance_def
      dto_of_row_def emit_def sample_env_def false_close_world_def alpha_database_def alpha_row_def
      alpha_closed_def fresh_channel_def Let_def)

subsection \<open>The stages of a restoration run\<close>

text \<open>
  C1. A run announces the cache stage when the cache is enabled for sessions, the durable
  stage whenever the durable tier is enabled (whatever the cache stage restored), and the
  file-provider stage only when the two stages before it counted zero together. When the
  cache stage registers nothing and the durable tier is enabled, the names in the
  registry after the run are those it held before together with the names of the
  eligible records the durable tier returned that can be registered: records with a
  name that is not empty and for which the registry object answers nothing, whose
  channel is created and connects. No name is registered twice, so the run adds as many
  instances as there are such names.
\<close>

theorem C1_stages_of_a_run:
  "stages (events (snd (restoreAllSessions E w))) =
     stages (events w) @
     (if REDIS_ENABLED E \<and> SAVE_INSTANCES E
      then [''Attempting to restore sessions from Redis cache''] else []) @
     (if SAVE_DATA_INSTANCE E then [''Attempting to restore sessions from database''] else []) @
     (if fst (cache_stage E w) + fst (database_stage E w) = 0
      then [''Attempting to restore sessions from provider files''] else []) \<and>
   fst (restoreAllSessions E w) = fst (cache_stage E w) + fst (database_stage E w) \<and>
   (SAVE_DATA_INSTANCE E \<and> waInstances (snd (cache_stage E w)) = waInstances w \<longrightarrow>
      fst ` set (waInstances (snd (restoreAllSessions E w))) =
        fst ` set (waInstances w) \<union> registrable_names E w \<and>
      (distinct (map fst (waInstances w)) \<longrightarrow>
         distinct (map fst (waInstances (snd (restoreAllSessions E w)))) \<and>
         length (waInstances (snd (restoreAllSessions E w))) =
           length (waInstances w) + card (registrable_names E w)))"
proof (intro conjI impI)
  show "stages (events (snd (restoreAllSessions E w))) =
     stages (events w) @
     (if REDIS_ENABLED E \<and> SAVE_INSTANCES E
      then [''Attempting to restore sessions from Redis cache''] else []) @
     (if SAVE_DATA_INSTANCE E then [''Attempting to restore sessions from database''] else []) @
     (if fst (cache_stage E w) + fst (database_stage E w) = 0
      then [''Attempting to restore sessions from provider files''] else [])"
    using cache_stage_keeps [of w E] database_stage_keeps [of E w]
    by (simp add: restoreAllSessions_stages verifyRestoredConnections_def verify_names_frame
        restoreFromProviderFiles_def)
  show "fst (restoreAllSessions E w) = fst (cache_stage E w) + fst (database_stage E w)"
    by (simp add: restoreAllSessions_stages)
next
  assume a: "SAVE_DATA_INSTANCE E \<and> waInstances (snd (cache_stage E w)) = waInstances w"
  let ?w1 = "snd (cache_stage E w)"
  have e: "registrable_names E ?w1 = registrable_names E w"
    using cache_stage_keeps [of w E] a
    by (simp add: registrable_names_def eligible_def registrable_def)
  show n: "fst ` set (waInstances (snd (restoreAllSessions E w))) =
        fst ` set (waInstances w) \<union> registrable_names E w"
    using a e restoreFromDatabase_names [of E ?w1]
    by (simp add: restoreAllSessions_registry database_stage_def)
  assume d: "distinct (map fst (waInstances w))"
  then show d': "distinct (map fst (waInstances (snd (restoreAllSessions E w))))"
    using restoreAllSessions_keeps [of w E] by blast
  have "length (waInstances (snd (restoreAllSessions E w))) =
      card (fst ` set (waInstances (snd (restoreAllSessions E w))))"
    using d' distinct_card [of "map fst (waInstances (snd (restoreAllSessions E w)))"] by simp
  also have "\<dots> = card (fst ` set (waInstances w) \<union> registrable_names E w)"
    using n by simp
  also have "\<dots> = card (fst ` set (waInstances w)) + card (registrable_names E w)"
    using registrable_names_new [of E w]
    by (intro card_Un_disjoint) (auto simp: registrable_names_def)
  also have "card (fst ` set (waInstances w)) = length (waInstances w)"
    using d distinct_card [of "map fst (waInstances w)"] by simp
  finally show "length (waInstances (snd (restoreAllSessions E w))) =
           length (waInstances w) + card (registrable_names E w)" .
qed

theorem C1_stages_of_a_run_witness:
  "SAVE_DATA_INSTANCE sample_env \<and>
   waInstances (snd (cache_stage sample_env durable_world)) = waInstances durable_world \<and>
   distinct (map fst (waInstances durable_world)) \<and>
   eligible sample_env durable_world = [beta_row] \<and>
   registrable_names sample_env durable_world = {''beta''} \<and>
   fst ` set (waInstances (snd (restoreAllSessions sample_env durable_world))) = {''beta''} \<and>
   length (waInstances (snd (restoreAllSessions sample_env durable_world))) = 1"
proof -
  have h1: "SAVE_DATA_INSTANCE sample_env"
    by (simp add: sample_env_def)
  have h2: "waInstances (snd (cache_stage sample_env durable_world)) = waInstances durable_world"
    by (simp add: cache_stage_def restoreFromRedisCache_def cleanupCorruptedKeys_def
        client_scan_def keys_cache_def emit_def sent_def sample_env_def durable_world_def
        empty_redis_def Let_def)
  have h3: "eligible sample_env durable_world = [beta_row]"
    by (simp add: eligible_def restorable_def sample_env_def durable_world_def alpha_row_def
        beta_row_def)
  have h4: "registrable sample_env durable_world beta_row"
    by (simp add: registrable_def beta_row_def durable_world_def sample_env_def lookup_def
        inherited_def prototype_names_def)
  have h5: "registrable_names sample_env durable_world = {''beta''}"
    using h3 h4 by (auto simp: registrable_names_def beta_row_def)
  have h6: "waInstances durable_world = []"
    by (simp add: durable_world_def)
  show ?thesis
    using h1 h2 h3 h5 h6 C1_stages_of_a_run [of sample_env durable_world]
    by simp
qed

text \<open>
  The durable stage is not gated by the cache stage: here the cache stage restores one
  instance and the durable stage is announced and queries the store all the same. And
  the durable tier returning one eligible record does not make one registered instance:
  a record named \<open>constructor\<close> is taken for loaded, a record whose channel is not
  created or fails to connect is passed over, a record with an empty name is skipped.
\<close>

theorem C1_durable_stage_runs_after_cache_restore:
  "REDIS_ENABLED sample_env \<and> SAVE_INSTANCES sample_env \<and>
   fst (restoreFromRedisCache sample_env cached_world) = 1 \<and>
   stages (events (snd (restoreAllSessions sample_env cached_world))) =
     [''Attempting to restore sessions from Redis cache'',
      ''Attempting to restore sessions from database''] \<and>
   queries (prisma (snd (restoreAllSessions sample_env cached_world))) = [FindMany ''evolution''] \<and>
   eligible sample_env constructor_world = [constructor_row] \<and>
   waInstances (snd (cache_stage sample_env constructor_world)) = [] \<and>
   waInstances (snd (restoreAllSessions sample_env constructor_world)) = [] \<and>
   eligible (sample_env\<lparr>connect_ok := (\<lambda>n. False)\<rparr>) durable_world = [beta_row] \<and>
   waInstances (snd (restoreAllSessions (sample_env\<lparr>connect_ok := (\<lambda>n. False)\<rparr>) durable_world)) = [] \<and>
   waInstances (snd (restoreAllSessions (sample_env\<lparr>init := (\<lambda>d. None)\<rparr>) durable_world)) = [] \<and>
   length (eligible sample_env nameless_world) = 1 \<and>
   waInstances (snd (restoreAllSessions sample_env nameless_world)) = []"
proof (intro conjI)
  note eval =
    restoreAllSessions_def restoreFromRedisCache_def cleanupCorruptedKeys_def client_scan_def
    client_type_def corrupted_def logicalKey_of_def shouldBeHash_def shouldBeString_def
    keys_cache_def restore_key_def skipped_def cache_get_def get_cache_def client_get_def
    restore_parsed_def restoreInstance_def setInstance_def cache_set_def set_cache_def
    write_value_def client_setEx_def write_string_def ttl_or_default_def emit_def sent_def
    buildKey_def restoreFromDatabase_def findMany_restorable_def asked_def restorable_def
    verifyRestoredConnections_def truthy_def sample_env_def sample_conf_def cached_world_def
    alpha_data_def data_of_instance_def alpha_closed_def fresh_channel_def alpha_database_def
    alpha_row_def lookup_def inherited_def prototype_names_def Object_keys_def array_index_def
    parse_digits_def digit_val_def restoreFromProviderFiles_def cache_stage_def
    constructor_world_def constructor_row_def beta_row_def durable_world_def nameless_world_def
    empty_redis_def eligible_def dto_of_row_def Let_def
  show "REDIS_ENABLED sample_env" "SAVE_INSTANCES sample_env"
    by (simp_all add: sample_env_def)
  show "fst (restoreFromRedisCache sample_env cached_world) = 1"
    by (simp add: eval)
  show "stages (events (snd (restoreAllSessions sample_env cached_world))) =
     [''Attempting to restore sessions from Redis cache'',
      ''Attempting to restore sessions from database'']"
    by (simp add: eval)
  show "queries (prisma (snd (restoreAllSessions sample_env cached_world))) = [FindMany ''evolution'']"
    by (simp add: eval)
  show "eligible sample_env constructor_world = [constructor_row]"
    by (simp add: eval)
  show "waInstances (snd (cache_stage sample_env constructor_world)) = []"
    by (simp add: eval)
  show "waInstances (snd (restoreAllSessions sample_env constructor_world)) = []"
    by (simp add: eval)
  show "eligible (sample_env\<lparr>connect_ok := (\<lambda>n. False)\<rparr>) durable_world = [beta_row]"
    by (simp add: eval)
  show "waInstances (snd (restoreAllSessions (sample_env\<lparr>connect_ok := (\<lambda>n. False)\<rparr>) durable_world)) = []"
    by (simp add: eval)
  show "waInstances (snd (restoreAllSessions (sample_env\<lparr>init := (\<lambda>d. None)\<rparr>) durable_world)) = []"
    by (simp add: eval)
  show "length (eligible sample_env nameless_world) = 1"
    by (simp add: eval)
  show "waInstances (snd (restoreAllSessions sample_env nameless_world)) = []"
    by (simp add: eval)
qed

subsection \<open>The shutdown drain\<close>

lemma set_cache_up [simp]: "up (snd (set_cache c r k v ttl)) = up r"
  by (auto simp: set_cache_def write_value_def client_set_def client_setEx_def write_string_def
      handleWrongTypeError_def client_type_def client_del_def client_hSet_def Let_def
      split: option.splits rvalue.splits)

lemma set_cache_succeeds: "up r \<Longrightarrow> fst (set_cache c r k v ttl) = Inr ()"
  by (auto simp: set_cache_def write_value_def client_set_def client_setEx_def write_string_def
      Let_def split: option.splits rvalue.splits)

lemma set_cache_log_first:
  "\<exists>rest. log (snd (set_cache c r k v ttl)) = log r @ write_command c (buildKey c k) v ttl # rest"
proof (cases "up r")
  case False
  then show ?thesis
    by (simp add: set_cache_def write_value_def write_command_def client_set_def
        client_setEx_def write_string_def Let_def)
next
  case True
  show ?thesis
  proof (cases "holds_hash r (buildKey c k)")
    case True
    with \<open>up r\<close> have "fst (write_value c r (buildKey c k) v ttl) = Inl WRONGTYPE"
      by (simp add: write_value_wrongtype)
    from set_repair(2) [OF this] show ?thesis by simp
  next
    case False
    with \<open>up r\<close> show ?thesis
      by (simp add: set_cache_def write_value_string_or_absent)
  qed
qed

lemma persist_frame [simp]:
  "waInstances (persistInstanceState E name d w) = waInstances w"
  "events (persistInstanceState E name d w) = events w"
  "isShuttingDown (persistInstanceState E name d w) = isShuttingDown w"
  by (cases "cache_set E (if instanceId d \<noteq> [] then instanceId d else name) (PData d) (Some 0) w";
      auto simp: persistInstanceState_def Let_def split: sum.splits
        dest: arg_cong [where f = "\<lambda>p. waInstances (snd p)"]
              arg_cong [where f = "\<lambda>p. events (snd p)"]
              arg_cong [where f = "\<lambda>p. isShuttingDown (snd p)"])+

lemma persist_cache_off:
  "\<not> (REDIS_ENABLED E \<and> SAVE_INSTANCES E) \<Longrightarrow> cache (persistInstanceState E name d w) = cache w"
  by (auto simp: persistInstanceState_def)

lemma persist_up [simp]: "up (cache (persistInstanceState E name d w)) = up (cache w)"
  by (cases "REDIS_ENABLED E \<and> SAVE_INSTANCES E") (simp_all add: persist_cache persist_cache_off)

lemma persist_log_mono:
  "set (log (cache w)) \<subseteq> set (log (cache (persistInstanceState E name d w)))"
proof (cases "REDIS_ENABLED E \<and> SAVE_INSTANCES E")
  case True
  obtain rest where "log (snd (set_cache (conf E) (cache w) (cacheKey_of name d) (PData d) (Some 0))) =
      log (cache w) @ write_command (conf E) (buildKey (conf E) (cacheKey_of name d)) (PData d) (Some 0) # rest"
    using set_cache_log_first by blast
  then show ?thesis by (auto simp: persist_cache [OF True])
next
  case False
  then show ?thesis by (simp add: persist_cache_off)
qed

lemma persist_attempt:
  assumes "REDIS_ENABLED E \<and> SAVE_INSTANCES E"
  shows "CSet (buildKey (conf E) (cacheKey_of name d)) (PData d) \<in>
           set (log (cache (persistInstanceState E name d w)))"
proof -
  obtain rest where "log (snd (set_cache (conf E) (cache w) (cacheKey_of name d) (PData d) (Some 0))) =
      log (cache w) @ write_command (conf E) (buildKey (conf E) (cacheKey_of name d)) (PData d) (Some 0) # rest"
    using set_cache_log_first by blast
  then show ?thesis by (simp add: persist_cache [OF assms] write_command_def)
qed

lemma persist_queries:
  "queries (prisma (persistInstanceState E name d w)) = queries (prisma w) \<or>
   queries (prisma (persistInstanceState E name d w)) = queries (prisma w) @ [Update (instanceId d)]"
  by (cases "cache_set E (if instanceId d \<noteq> [] then instanceId d else name) (PData d) (Some 0) w")
     (auto simp: persistInstanceState_def Let_def split: sum.splits
        dest: arg_cong [where f = "\<lambda>p. prisma (snd p)"])

lemma persist_queries_mono:
  "set (queries (prisma w)) \<subseteq> set (queries (prisma (persistInstanceState E name d w)))"
  using persist_queries [of E name d w] by auto

lemma persist_db_attempt:
  assumes "SAVE_DATA_INSTANCE E" and "instanceId d \<noteq> []"
    and "REDIS_ENABLED E \<and> SAVE_INSTANCES E \<longrightarrow> up (cache w)"
  shows "Update (instanceId d) \<in> set (queries (prisma (persistInstanceState E name d w)))"
proof (cases "REDIS_ENABLED E \<and> SAVE_INSTANCES E")
  case False
  with assms show ?thesis by (auto simp: persistInstanceState_def)
next
  case True
  with assms(3) have "fst (set_cache (conf E) (cache w) (instanceId d) (PData d) (Some 0)) = Inr ()"
    by (simp add: set_cache_succeeds)
  then have "\<exists>w1. cache_set E (instanceId d) (PData d) (Some 0) w = (Inr (), w1) \<and>
      prisma w1 = prisma w"
    by (auto simp: cache_set_def split: prod.splits sum.splits)
  with True assms(1,2) show ?thesis
    by (auto simp: persistInstanceState_def Let_def)
qed

lemma save_one_frame [simp]:
  "map fst (waInstances (save_one E w name)) = map fst (waInstances w)"
  "events (save_one E w name) = events w"
  "isShuttingDown (save_one E w name) = isShuttingDown w"
  "up (cache (save_one E w name)) = up (cache w)"
  by (simp_all add: save_one_def split: option.splits)

lemma save_one_lookup:
  "map_of (waInstances (save_one E w n)) m =
     (if m = n
      then map_option (\<lambda>i. i\<lparr>stateConnection := status_read E i\<rparr>) (map_of (waInstances w) m)
      else map_of (waInstances w) m)"
  by (auto simp: save_one_def split: option.splits)

lemma save_one_mono:
  "set (log (cache w)) \<subseteq> set (log (cache (save_one E w name)))"
  "set (queries (prisma w)) \<subseteq> set (queries (prisma (save_one E w name)))"
proof -
  have "\<And>d. set (log (cache w)) \<subseteq>
      set (log (cache (persistInstanceState E name d (read_status E name w))))"
    using persist_log_mono [of "read_status E name w" E name] by simp
  then show "set (log (cache w)) \<subseteq> set (log (cache (save_one E w name)))"
    by (simp add: save_one_def split: option.splits)
  have "\<And>d. set (queries (prisma w)) \<subseteq>
      set (queries (prisma (persistInstanceState E name d (read_status E name w))))"
    using persist_queries_mono [of "read_status E name w" E name] by simp
  then show "set (queries (prisma w)) \<subseteq> set (queries (prisma (save_one E w name)))"
    by (simp add: save_one_def split: option.splits)
qed

lemma save_all_frame [simp]:
  "map fst (waInstances (foldl (save_one E) w ns)) = map fst (waInstances w)"
  "events (foldl (save_one E) w ns) = events w"
  "isShuttingDown (foldl (save_one E) w ns) = isShuttingDown w"
  "up (cache (foldl (save_one E) w ns)) = up (cache w)"
  by (induction ns arbitrary: w) simp_all

lemma save_all_keys [simp]:
  "Object_keys (waInstances (foldl (save_one E) w ns)) = Object_keys (waInstances w)"
  by (rule Object_keys_names) simp

lemma save_all_mono:
  "set (log (cache w)) \<subseteq> set (log (cache (foldl (save_one E) w ns)))"
  "set (queries (prisma w)) \<subseteq> set (queries (prisma (foldl (save_one E) w ns)))"
proof (induction ns arbitrary: w)
  case Nil
  {
    case 1 show ?case by simp
  next
    case 2 show ?case by simp
  }
next
  case (Cons n ns)
  {
    case 1
    show ?case using save_one_mono(1) [of w E n] Cons.IH(1) [of "save_one E w n"] by auto
  next
    case 2
    show ?case using save_one_mono(2) [of w E n] Cons.IH(2) [of "save_one E w n"] by auto
  }
qed

lemma save_all_attempts:
  assumes "name \<in> set ns" and "map_of (waInstances w) name = Some i"
  shows "(REDIS_ENABLED E \<and> SAVE_INSTANCES E \<longrightarrow>
            CSet (buildKey (conf E) (cacheKey_of name (data_of_instance E name i)))
                 (PData (data_of_instance E name i)) \<in>
              set (log (cache (foldl (save_one E) w ns)))) \<and>
         (SAVE_DATA_INSTANCE E \<and> inst_instanceId i \<noteq> [] \<and>
          (REDIS_ENABLED E \<and> SAVE_INSTANCES E \<longrightarrow> up (cache w)) \<longrightarrow>
            Update (inst_instanceId i) \<in> set (queries (prisma (foldl (save_one E) w ns))))"
  using assms
proof (induction ns arbitrary: w)
  case Nil
  then show ?case by simp
next
  case (Cons n ns)
  let ?d = "data_of_instance E name i"
  show ?case
  proof (cases "n = name")
    case True
    have s: "save_one E w name = persistInstanceState E name ?d (read_status E name w)"
      using Cons.prems(2) by (simp add: save_one_def)
    have a: "REDIS_ENABLED E \<and> SAVE_INSTANCES E \<longrightarrow>
        CSet (buildKey (conf E) (cacheKey_of name ?d)) (PData ?d) \<in>
          set (log (cache (save_one E w name)))"
      by (simp add: s persist_attempt)
    have b: "SAVE_DATA_INSTANCE E \<and> inst_instanceId i \<noteq> [] \<and>
          (REDIS_ENABLED E \<and> SAVE_INSTANCES E \<longrightarrow> up (cache w)) \<longrightarrow>
        Update (inst_instanceId i) \<in> set (queries (prisma (save_one E w name)))"
      using persist_db_attempt [of E ?d "read_status E name w" name]
      by (simp add: s data_of_instance_def)
    show ?thesis
      using a b True save_all_mono [of "save_one E w name" E ns] by auto
  next
    case False
    with Cons.prems have "name \<in> set ns" by simp
    moreover have "map_of (waInstances (save_one E w n)) name = Some i"
      using Cons.prems(2) False by (simp add: save_one_lookup)
    ultimately show ?thesis
      using Cons.IH [of "save_one E w n"] by simp
  qed
qed

lemma has_ws_closing [simp]: "has_ws (closing c) = has_ws c"
  by (simp add: has_ws_def closing_def split: option.splits)

lemma lookup_close_ws:
  "map_of (waInstances (close_ws name w)) m =
     (if m = name
      then map_option (\<lambda>i. if has_ws (client i) then i\<lparr>client := closing (client i)\<rparr> else i)
             (map_of (waInstances w) m)
      else map_of (waInstances w) m)"
  by (cases "map_of (waInstances w) name") (auto simp: close_ws_def)

lemma closable_steps [simp]:
  "closable (emit e w) m = closable w m"
  "closable (set_state name s w) m = closable w m"
  "closable (close_ws name w) m = closable w m"
  by (auto simp: closable_def lookup_close_ws)

lemma save_closable [simp]:
  "closable (save_one E w n) m = closable w m"
  "closable (foldl (save_one E) w ns) m = closable w m"
proof -
  show one: "\<And>w. closable (save_one E w n) m = closable w m"
    by (auto simp: closable_def save_one_lookup)
  have "\<And>w n. closable (save_one E w n) m = closable w m"
    by (auto simp: closable_def save_one_lookup)
  then show "closable (foldl (save_one E) w ns) m = closable w m"
    by (induction ns arbitrary: w) simp_all
qed

lemma close_one_frame [simp]:
  "cache (close_one w name) = cache w" "prisma (close_one w name) = prisma w"
  by (simp_all add: close_one_def closeBaileysConnection_def Let_def split: option.splits)

lemma close_ws_events_mono: "set (events w) \<subseteq> set (events (close_ws name w))"
  by (auto simp: close_ws_def split: option.splits)

lemma close_one_mono: "set (events w) \<subseteq> set (events (close_one w name))"
  using close_ws_events_mono [of "set_state name ''close'' w" name]
  by (auto simp: close_one_def closeBaileysConnection_def Let_def split: option.splits)

lemma close_one_closable [simp]: "closable (close_one w name) m = closable w m"
  by (auto simp: close_one_def closeBaileysConnection_def Let_def split: option.splits)

lemma close_one_ends:
  "closable w name \<Longrightarrow> ClientEnd name \<in> set (events (close_one w name))"
  by (auto simp: closable_def close_one_def closeBaileysConnection_def Let_def)

lemma close_all_frame [simp]:
  "cache (foldl close_one w ns) = cache w" "prisma (foldl close_one w ns) = prisma w"
  by (induction ns arbitrary: w) simp_all

lemma close_all_mono: "set (events w) \<subseteq> set (events (foldl close_one w ns))"
proof (induction ns arbitrary: w)
  case Nil
  show ?case by simp
next
  case (Cons n ns)
  show ?case using close_one_mono [of w n] Cons.IH [of "close_one w n"] by auto
qed

lemma close_all_ends:
  "name \<in> set ns \<Longrightarrow> closable w name \<Longrightarrow> ClientEnd name \<in> set (events (foldl close_one w ns))"
proof (induction ns arbitrary: w)
  case Nil
  then show ?case by simp
next
  case (Cons n ns)
  show ?case
  proof (cases "n = name")
    case True
    then show ?thesis
      using close_one_ends [OF Cons.prems(2)] close_all_mono [of "close_one w name" ns] by auto
  next
    case False
    with Cons.prems show ?thesis
      using Cons.IH [of "close_one w n"] by simp
  qed
qed

lemma registered_name: "map_of al name = Some i \<Longrightarrow> name \<in> set (Object_keys al)"
  by (simp add: map_of_eq_Some_iff domI dom_map_of_conv_image_fst [symmetric])

text \<open>
  C8. A failure inside the persist of one instance (an unreachable cache, a durable
  record that cannot be updated) is caught there and changes neither the rest of the
  drain nor its outcome: when the health monitor stops normally the shutdown exits with
  outcome zero, every registered instance has had its persist attempted and every
  socket-based instance with a socket its connection ended. An error thrown by a step as
  a whole (stopping the health monitor) is rethrown: the remaining steps do not run and
  the shutdown exits with outcome one. The drain is taken to end before the deadline.
\<close>

theorem C8_shutdown_outcome:
  assumes "\<not> isShuttingDown w"
  shows "(stop_ok E \<longrightarrow>
            fst (initiateShutdown E w) = Some 0 \<and>
            (\<forall>name i. map_of (waInstances w) name = Some i \<longrightarrow>
               (REDIS_ENABLED E \<and> SAVE_INSTANCES E \<longrightarrow>
                  CSet (buildKey (conf E) (cacheKey_of name (data_of_instance E name i)))
                       (PData (data_of_instance E name i)) \<in>
                    set (log (cache (snd (initiateShutdown E w))))) \<and>
               (SAVE_DATA_INSTANCE E \<and> inst_instanceId i \<noteq> [] \<and>
                (REDIS_ENABLED E \<and> SAVE_INSTANCES E \<longrightarrow> up (cache w)) \<longrightarrow>
                  Update (inst_instanceId i) \<in> set (queries (prisma (snd (initiateShutdown E w))))) \<and>
               (inst_integration i = WHATSAPP_BAILEYS \<and> has_ws (client i) \<longrightarrow>
                  ClientEnd name \<in> set (events (snd (initiateShutdown E w)))))) \<and>
         (\<not> stop_ok E \<longrightarrow>
            fst (initiateShutdown E w) = Some 1 \<and>
            snd (initiateShutdown E w) = w\<lparr>isShuttingDown := True\<rparr>)"
proof (intro conjI impI allI)
  let ?w0 = "emit StopHealthMonitoring (w\<lparr>isShuttingDown := True\<rparr>)"
  let ?ns = "Object_keys (waInstances w)"
  assume ok: "stop_ok E"
  have r: "initiateShutdown E w = (Some 0, foldl close_one (foldl (save_one E) ?w0 ?ns) ?ns)"
    using assms ok
    by (simp add: initiateShutdown_def performGracefulShutdown_def stopHealthMonitoring_def
        closeAllConnections_def saveAllInstanceStates_def)
  show "fst (initiateShutdown E w) = Some 0"
    by (simp add: r)
  fix name i
  assume l: "map_of (waInstances w) name = Some i"
  then have n: "name \<in> set ?ns" by (rule registered_name)
  have l0: "map_of (waInstances ?w0) name = Some i"
    using l by simp
  note att = save_all_attempts [OF n l0, of E]
  {
    assume "REDIS_ENABLED E \<and> SAVE_INSTANCES E"
    then show "CSet (buildKey (conf E) (cacheKey_of name (data_of_instance E name i)))
                 (PData (data_of_instance E name i)) \<in>
                    set (log (cache (snd (initiateShutdown E w))))"
      using att by (simp add: r)
  next
    assume "SAVE_DATA_INSTANCE E \<and> inst_instanceId i \<noteq> [] \<and>
                (REDIS_ENABLED E \<and> SAVE_INSTANCES E \<longrightarrow> up (cache w))"
    then show "Update (inst_instanceId i) \<in> set (queries (prisma (snd (initiateShutdown E w))))"
      using att by (simp add: r)
  next
    assume "inst_integration i = WHATSAPP_BAILEYS \<and> has_ws (client i)"
    with l have "closable ?w0 name"
      by (simp add: closable_def)
    then have "closable (foldl (save_one E) ?w0 ?ns) name"
      by simp
    from close_all_ends [OF n this]
    show "ClientEnd name \<in> set (events (snd (initiateShutdown E w)))"
      by (simp add: r)
  }
next
  assume no: "\<not> stop_ok E"
  show "fst (initiateShutdown E w) = Some 1"
    using assms no
    by (simp add: initiateShutdown_def performGracefulShutdown_def stopHealthMonitoring_def)
  show "snd (initiateShutdown E w) = w\<lparr>isShuttingDown := True\<rparr>"
    using assms no
    by (simp add: initiateShutdown_def performGracefulShutdown_def stopHealthMonitoring_def)
qed

theorem C8_shutdown_outcome_witness:
  "\<not> isShuttingDown cache_down_world \<and> stop_ok sample_env \<and>
   map_of (waInstances cache_down_world) ''alpha'' = Some alpha_closed \<and>
   REDIS_ENABLED sample_env \<and> SAVE_INSTANCES sample_env \<and>
   inst_integration alpha_closed = WHATSAPP_BAILEYS \<and> has_ws (client alpha_closed) \<and>
   fst (initiateShutdown sample_env cache_down_world) = Some 0 \<and>
   CSet ''evolution_cache:instance:id1'' (PData alpha_data) \<in>
     set (log (cache (snd (initiateShutdown sample_env cache_down_world)))) \<and>
   ClientEnd ''alpha'' \<in> set (events (snd (initiateShutdown sample_env cache_down_world))) \<and>
   \<not> isShuttingDown false_close_world \<and>
   map_of (waInstances false_close_world) ''alpha'' = Some alpha_closed \<and>
   SAVE_DATA_INSTANCE sample_env \<and> inst_instanceId alpha_closed \<noteq> [] \<and>
   up (cache false_close_world) \<and>
   Update ''id1'' \<in> set (queries (prisma (snd (initiateShutdown sample_env false_close_world)))) \<and>
   \<not> stop_ok (sample_env\<lparr>stop_ok := False\<rparr>) \<and>
   fst (initiateShutdown (sample_env\<lparr>stop_ok := False\<rparr>) false_close_world) = Some 1"
proof -
  have h0: "\<not> isShuttingDown cache_down_world" and h0': "\<not> isShuttingDown false_close_world"
    by (simp_all add: cache_down_world_def false_close_world_def)
  have h1: "stop_ok sample_env \<and> REDIS_ENABLED sample_env \<and> SAVE_INSTANCES sample_env \<and>
      SAVE_DATA_INSTANCE sample_env"
    by (simp add: sample_env_def)
  have h2: "map_of (waInstances cache_down_world) ''alpha'' = Some alpha_closed"
    and h2': "map_of (waInstances false_close_world) ''alpha'' = Some alpha_closed"
    by (simp_all add: cache_down_world_def false_close_world_def)
  have h3: "inst_integration alpha_closed = WHATSAPP_BAILEYS \<and> has_ws (client alpha_closed) \<and>
      inst_instanceId alpha_closed \<noteq> [] \<and> inst_instanceId alpha_closed = ''id1''"
    by (simp add: alpha_closed_def fresh_channel_def has_ws_def connected_client_def)
  have h4: "up (cache false_close_world)"
    by (simp add: false_close_world_def empty_redis_def)
  have h5: "buildKey (conf sample_env) (cacheKey_of ''alpha'' alpha_data) =
      ''evolution_cache:instance:id1'' \<and> data_of_instance sample_env ''alpha'' alpha_closed = alpha_data"
    by (simp add: buildKey_def sample_env_def sample_conf_def cacheKey_of_def alpha_data_def
        data_of_instance_def alpha_closed_def)
  have h6: "\<not> stop_ok (sample_env\<lparr>stop_ok := False\<rparr>)"
    by simp
  note t1 = C8_shutdown_outcome [OF h0, of sample_env, THEN conjunct1]
  note t2 = C8_shutdown_outcome [OF h0', of sample_env, THEN conjunct1]
  note t3 = C8_shutdown_outcome [OF h0', of "sample_env\<lparr>stop_ok := False\<rparr>", THEN conjunct2]
  have c1: "fst (initiateShutdown sample_env cache_down_world) = Some 0"
    using t1 h1 by blast
  have a1: "(REDIS_ENABLED sample_env \<and> SAVE_INSTANCES sample_env \<longrightarrow>
        CSet (buildKey (conf sample_env) (cacheKey_of ''alpha'' (data_of_instance sample_env ''alpha'' alpha_closed)))
             (PData (data_of_instance sample_env ''alpha'' alpha_closed)) \<in>
          set (log (cache (snd (initiateShutdown sample_env cache_down_world))))) \<and>
      (inst_integration alpha_closed = WHATSAPP_BAILEYS \<and> has_ws (client alpha_closed) \<longrightarrow>
        ClientEnd ''alpha'' \<in> set (events (snd (initiateShutdown sample_env cache_down_world))))"
    using t1 h1 h2 by blast
  have c2: "CSet ''evolution_cache:instance:id1'' (PData alpha_data) \<in>
     set (log (cache (snd (initiateShutdown sample_env cache_down_world))))"
    using a1 h1 h5 by simp
  have c3: "ClientEnd ''alpha'' \<in> set (events (snd (initiateShutdown sample_env cache_down_world)))"
    using a1 h3 by blast
  have a2: "SAVE_DATA_INSTANCE sample_env \<and> inst_instanceId alpha_closed \<noteq> [] \<and>
        (REDIS_ENABLED sample_env \<and> SAVE_INSTANCES sample_env \<longrightarrow> up (cache false_close_world)) \<longrightarrow>
      Update (inst_instanceId alpha_closed) \<in>
        set (queries (prisma (snd (initiateShutdown sample_env false_close_world))))"
    using t2 h1 h2' by blast
  have c4: "Update ''id1'' \<in> set (queries (prisma (snd (initiateShutdown sample_env false_close_world))))"
    using a2 h1 h3 h4 by simp
  have c5: "fst (initiateShutdown (sample_env\<lparr>stop_ok := False\<rparr>) false_close_world) = Some 1"
    using t3 h6 by blast
  show ?thesis
    using h0 h0' h1 h2 h2' h3 h4 h6 c1 c2 c3 c4 c5 by blast
qed

text \<open>
  A persist that fails (here the durable store is unreachable, so the update of the
  record throws inside the persist) leaves the outcome at zero, and a step that throws
  ends the drain where it is.
\<close>

theorem C8_persist_failure_exits_zero:
  "\<not> isShuttingDown database_down_world \<and>
   SAVE_DATA_INSTANCE sample_env \<and> instanceId alpha_data = ''id1'' \<and>
   fst (db_update ''id1'' (persisted_row alpha_data) database_down_world) = Inl DatabaseError \<and>
   fst (initiateShutdown sample_env database_down_world) = Some 0 \<and>
   \<not> stop_ok (sample_env\<lparr>stop_ok := False\<rparr>) \<and>
   fst (initiateShutdown (sample_env\<lparr>stop_ok := False\<rparr>) false_close_world) = Some 1 \<and>
   events (snd (initiateShutdown (sample_env\<lparr>stop_ok := False\<rparr>) false_close_world)) = [] \<and>
   log (cache (snd (initiateShutdown (sample_env\<lparr>stop_ok := False\<rparr>) false_close_world))) = []"
proof (intro conjI)
  show "\<not> isShuttingDown database_down_world"
    by (simp add: database_down_world_def)
  show "SAVE_DATA_INSTANCE sample_env"
    by (simp add: sample_env_def)
  show "instanceId alpha_data = ''id1''"
    by (simp add: alpha_data_def data_of_instance_def alpha_closed_def)
  show "fst (db_update ''id1'' (persisted_row alpha_data) database_down_world) = Inl DatabaseError"
    by (simp add: db_update_def update_row_def database_down_world_def Let_def)
  show "fst (initiateShutdown sample_env database_down_world) = Some 0"
    by (simp add: initiateShutdown_def performGracefulShutdown_def stopHealthMonitoring_def
        sample_env_def database_down_world_def)
  show "\<not> stop_ok (sample_env\<lparr>stop_ok := False\<rparr>)"
    by simp
  show "fst (initiateShutdown (sample_env\<lparr>stop_ok := False\<rparr>) false_close_world) = Some 1"
    by (simp add: initiateShutdown_def performGracefulShutdown_def stopHealthMonitoring_def
        false_close_world_def)
  show "events (snd (initiateShutdown (sample_env\<lparr>stop_ok := False\<rparr>) false_close_world)) = []"
    by (simp add: initiateShutdown_def performGracefulShutdown_def stopHealthMonitoring_def
        false_close_world_def)
  show "log (cache (snd (initiateShutdown (sample_env\<lparr>stop_ok := False\<rparr>) false_close_world))) = []"
    by (simp add: initiateShutdown_def performGracefulShutdown_def stopHealthMonitoring_def
        false_close_world_def empty_redis_def)
qed

subsection \<open>Writes with an expiry\<close>

lemma tidy_refl [simp]: "tidy c r r"
  by (simp add: tidy_def)

lemma tidy_trans: "tidy c r r1 \<Longrightarrow> tidy c r1 r2 \<Longrightarrow> tidy c r r2"
  by (auto simp: tidy_def)

lemma marker_keys_transient:
  "prefix ''restored:'' k \<or> prefix ''connecting_time:'' k \<or> prefix ''test:'' k \<Longrightarrow>
   transient_key c (buildKey c k)"
  by (auto simp: transient_key_def buildKey_def prefix_def)

lemma get_cache_tidy: "tidy c r (snd (get_cache c r k))"
  by (auto simp: tidy_def get_cache_def client_get_def handleWrongTypeError_def client_type_def
      client_del_def Let_def split: option.splits rvalue.splits)

lemma set_cache_tidy:
  "ttl = Some 0 \<or> transient_key c (buildKey c k) \<Longrightarrow> tidy c r (snd (set_cache c r k v ttl))"
  by (auto simp: tidy_def set_cache_def write_value_def client_set_def client_setEx_def
      write_string_def handleWrongTypeError_def client_type_def client_del_def Let_def
      split: option.splits rvalue.splits)

lemma delete_cache_tidy [simp]: "tidy c r (delete_cache c r k)"
  by (auto simp: tidy_def delete_cache_def client_del_def Let_def split: option.splits)

lemma keys_cache_tidy: "tidy c r (snd (keys_cache c r a))"
  by (auto simp: tidy_def keys_cache_def client_scan_def Let_def split: option.splits)

lemma client_type_tidy: "tidy c r (snd (client_type r k))"
  by (auto simp: tidy_def client_type_def Let_def split: option.splits rvalue.splits)

lemma client_del_tidy: "tidy c r (snd (client_del r k))"
  by (auto simp: tidy_def client_del_def Let_def split: option.splits)

lemma cleanup_loop_tidy: "tidy c r (snd (cleanup_loop c ks r n))"
proof (induction ks arbitrary: r n)
  case Nil
  show ?case by simp
next
  case (Cons key ks)
  obtain res r1 where t: "client_type r key = (res, r1)"
    by (cases "client_type r key")
  have t1: "tidy c r r1"
    using client_type_tidy [of c r key] t by (metis snd_conv)
  obtain dres r2 where d: "client_del r1 key = (dres, r2)"
    by (cases "client_del r1 key")
  have "tidy c r1 r2"
    using client_del_tidy [of c r1 key] d by (metis snd_conv)
  with t1 have t2: "tidy c r r2"
    by (rule tidy_trans)
  have a: "\<And>m. tidy c r (snd (cleanup_loop c ks r1 m))"
    using t1 Cons.IH by (rule tidy_trans)
  have b: "\<And>m. tidy c r (snd (cleanup_loop c ks r2 m))"
    using t2 Cons.IH by (rule tidy_trans)
  show ?case
    using t d a b by (auto split: sum.splits)
qed

lemma cleanupCorruptedKeys_tidy: "tidy c r (snd (cleanupCorruptedKeys c r))"
proof -
  obtain res r1 where e: "client_scan r (buildKey c []) = (res, r1)"
    by (cases "client_scan r (buildKey c [])")
  have s: "tidy c r r1"
    using e by (auto simp: tidy_def client_scan_def Let_def split: if_splits)
  then have "\<And>ks. tidy c r (snd (cleanup_loop c ks r1 0))"
    using cleanup_loop_tidy by (rule tidy_trans)
  then show ?thesis
    using s e by (auto simp: cleanupCorruptedKeys_def split: sum.splits)
qed

lemma orderly_refl [simp]: "orderly E w w"
  by (simp add: orderly_def)

lemma orderly_trans: "orderly E w w1 \<Longrightarrow> orderly E w1 w2 \<Longrightarrow> orderly E w w2"
  unfolding orderly_def by (rule tidy_trans)

lemma orderly_same: "cache w' = cache w \<Longrightarrow> orderly E w w'"
  by (simp add: orderly_def)

lemma orderly_cache_update: "tidy (conf E) (cache w) r \<Longrightarrow> orderly E w (w\<lparr>cache := r\<rparr>)"
  by (simp add: orderly_def)

lemma orderly_cache_set:
  assumes "cache_set E k v ttl w = (res, w1)"
    and "ttl = Some 0 \<or> prefix ''restored:'' k \<or> prefix ''connecting_time:'' k \<or> prefix ''test:'' k"
  shows "orderly E w w1"
proof -
  have "ttl = Some 0 \<or> transient_key (conf E) (buildKey (conf E) k)"
    using assms(2) marker_keys_transient by blast
  then have "tidy (conf E) (cache w) (snd (set_cache (conf E) (cache w) k v ttl))"
    by (rule set_cache_tidy)
  moreover have "cache w1 = snd (set_cache (conf E) (cache w) k v ttl)"
    using cache_of_cache_set [of E k v ttl w] assms(1) by simp
  ultimately show ?thesis by (simp add: orderly_def)
qed

lemma orderly_cache_get: "cache_get E k w = (v, w1) \<Longrightarrow> orderly E w w1"
  using get_cache_tidy [of "conf E" "cache w" k]
  by (auto simp: orderly_def cache_get_def split: prod.splits)

lemma orderly_cache_delete: "orderly E w (cache_delete E k w)"
  by (simp add: orderly_def cache_delete_def delete_cache_tidy)

lemma orderly_emit [simp]: "orderly E w (emit e w)"
  by (simp add: orderly_same)

text \<open>The four places that write to the cache.\<close>

lemma persist_orderly: "orderly E w (persistInstanceState E name d w)"
proof (cases "REDIS_ENABLED E \<and> SAVE_INSTANCES E")
  case True
  then show ?thesis
    by (simp add: orderly_def persist_cache set_cache_tidy)
next
  case False
  then show ?thesis
    by (simp add: orderly_def persist_cache_off)
qed

lemma setConnectingTime_orderly: "orderly E w (setConnectingTime E name w)"
proof -
  obtain res w1 where
    s: "cache_set E (''connecting_time:'' @ name) (PText (toString (now E))) (Some 300) w = (res, w1)"
    by (cases "cache_set E (''connecting_time:'' @ name) (PText (toString (now E))) (Some 300) w")
  from s have "orderly E w w1"
    by (rule orderly_cache_set) simp
  with s show ?thesis
    by (simp add: setConnectingTime_def del: append.simps)
qed

lemma restoreInstance_orderly: "orderly E w (snd (restoreInstance E d w))"
proof (cases "instanceName d = [] \<or> lookup (waInstances w) (instanceName d) \<noteq> Undefined")
  case True
  then show ?thesis by (auto simp: restoreInstance_def)
next
  case False
  obtain res w1 where s: "setInstance E d w = (res, w1)"
    by (cases "setInstance E d w")
  have c: "cache w1 = cache w"
    using setInstance_frame(3) [of E d w] s by simp
  show ?thesis
  proof (cases res)
    case (Inl e)
    with False s c show ?thesis by (simp add: restoreInstance_def orderly_same)
  next
    case (Inr u)
    obtain res2 w2 where
      m: "cache_set E (''restored:'' @ instanceName d) (PText ''true'') (Some 300) w1 = (res2, w2)"
      by (cases "cache_set E (''restored:'' @ instanceName d) (PText ''true'') (Some 300) w1")
    from m have "orderly E w1 w2"
      by (rule orderly_cache_set) simp
    then have "orderly E w w2"
      using c by (simp add: orderly_def)
    with False s Inr m show ?thesis
      by (simp add: restoreInstance_def del: append.simps)
  qed
qed

lemma checkCacheAvailability_orderly: "orderly E w (snd (checkCacheAvailability E name w))"
proof -
  let ?k = "''test:'' @ name @ '':'' @ toString (now E)"
  obtain res w1 where s: "cache_set E ?k (PText ''test'') (Some 5) w = (res, w1)"
    by (cases "cache_set E ?k (PText ''test'') (Some 5) w")
  from s have o1: "orderly E w w1"
    by (rule orderly_cache_set) simp
  obtain v w2 where g: "cache_get E ?k w1 = (v, w2)"
    by (cases "cache_get E ?k w1")
  have o2: "orderly E w w2"
    using o1 orderly_cache_get [OF g] by (rule orderly_trans)
  have "orderly E w (cache_delete E ?k w2)"
    using o2 orderly_cache_delete by (rule orderly_trans)
  with s g o1 show ?thesis
    by (cases res) (simp_all add: checkCacheAvailability_def Let_def del: append.simps)
qed

lemma probe_write_logged:
  "CSetEx (buildKey (conf E) (''test:'' @ name @ '':'' @ toString (now E))) 5 (PText ''test'') \<in>
     set (log (cache (snd (checkCacheAvailability E name w))))"
proof -
  let ?k = "''test:'' @ name @ '':'' @ toString (now E)"
  obtain rest where l: "log (snd (set_cache (conf E) (cache w) ?k (PText ''test'') (Some 5))) =
      log (cache w) @ write_command (conf E) (buildKey (conf E) ?k) (PText ''test'') (Some 5) # rest"
    using set_cache_log_first by blast
  obtain res w1 where s: "cache_set E ?k (PText ''test'') (Some 5) w = (res, w1)"
    by (cases "cache_set E ?k (PText ''test'') (Some 5) w")
  have "cache w1 = snd (set_cache (conf E) (cache w) ?k (PText ''test'') (Some 5))"
    using cache_of_cache_set [of E ?k "PText ''test''" "Some 5" w] s
    by (simp del: append.simps)
  then have c1: "CSetEx (buildKey (conf E) ?k) 5 (PText ''test'') \<in> set (log (cache w1))"
    using l by (simp add: write_command_def ttl_or_default_def del: append.simps)
  obtain v w2 where g: "cache_get E ?k w1 = (v, w2)"
    by (cases "cache_get E ?k w1")
  have "orderly E w1 (cache_delete E ?k w2)"
    using orderly_cache_get [OF g] orderly_cache_delete by (rule orderly_trans)
  then have "set (log (cache w1)) \<subseteq> set (log (cache (cache_delete E ?k w2)))"
    by (auto simp: orderly_def tidy_def)
  with c1 s g show ?thesis
    by (cases res) (auto simp: checkCacheAvailability_def Let_def simp del: append.simps)
qed

text \<open>The restoration, stage by stage.\<close>

lemma restore_rows_orderly: "orderly E w (snd (restore_rows E rs w restored))"
proof (induction rs arbitrary: w restored)
  case Nil
  show ?case by simp
next
  case (Cons row rs)
  obtain res w1 where r: "restoreInstance E (dto_of_row row) w = (res, w1)"
    by (cases "restoreInstance E (dto_of_row row) w")
  have k1: "orderly E w w1"
    using restoreInstance_orderly [of E w "dto_of_row row"] r by simp
  show ?case
  proof (cases res)
    case (Inl e)
    then show ?thesis
      using r k1 Cons.IH [of w1 restored] by (auto intro: orderly_trans)
  next
    case (Inr u)
    then show ?thesis
      using r k1 Cons.IH [of w1 "restored + 1"] by (auto intro: orderly_trans)
  qed
qed

lemma restoreFromDatabase_orderly: "orderly E w (snd (restoreFromDatabase E cn w))"
proof -
  let ?w0 = "emit (Info ''Attempting to restore sessions from database'') w"
  have a: "\<And>d. orderly E w (?w0\<lparr>prisma := d\<rparr>)"
    by (simp add: orderly_same)
  have "\<And>d rs. orderly E w (snd (restore_rows E rs (?w0\<lparr>prisma := d\<rparr>) 0))"
    using a restore_rows_orderly by (rule orderly_trans)
  with a show ?thesis
    by (auto simp: restoreFromDatabase_def Let_def split: prod.splits sum.splits)
qed

lemma findInstanceInDatabase_orderly: "orderly E w (snd (findInstanceInDatabase E k w))"
  by (auto simp: findInstanceInDatabase_def orderly_same split: prod.splits sum.splits)

lemma database_fallback_orderly: "orderly E w (snd (database_fallback E k w restored))"
proof (cases "SAVE_DATA_INSTANCE E")
  case False
  then show ?thesis by (simp add: database_fallback_def)
next
  case True
  obtain found w1 where f: "findInstanceInDatabase E k w = (found, w1)"
    by (cases "findInstanceInDatabase E k w")
  have k1: "orderly E w w1"
    using findInstanceInDatabase_orderly [of E w k] f by simp
  show ?thesis
  proof (cases found)
    case None
    with True f k1 show ?thesis by (simp add: database_fallback_def)
  next
    case (Some dbInstance)
    have "orderly E w (snd (restoreInstance E dbInstance w1))"
      using k1 restoreInstance_orderly by (rule orderly_trans)
    with True f Some show ?thesis
      by (auto simp: database_fallback_def split: prod.splits sum.splits)
  qed
qed

lemma restore_parsed_orderly: "orderly E w (snd (restore_parsed E k parsedData w restored))"
proof (cases parsedData)
  case None
  then show ?thesis by (simp add: restore_parsed_def)
next
  case (Some d)
  show ?thesis
  proof (cases "instanceName d \<noteq> [] \<or> instanceId d \<noteq> []")
    case False
    with Some show ?thesis by (simp add: restore_parsed_def)
  next
    case True
    obtain res w1 where r: "restoreInstance E d w = (res, w1)"
      by (cases "restoreInstance E d w")
    have k1: "orderly E w w1"
      using restoreInstance_orderly [of E w d] r by simp
    have "orderly E w (snd (database_fallback E k w1 restored))"
      using k1 database_fallback_orderly by (rule orderly_trans)
    with Some True r k1 show ?thesis
      by (cases res) (simp_all add: restore_parsed_def)
  qed
qed

lemma restore_key_orderly: "orderly E w (snd (restore_key E fullKey w restored))"
proof -
  let ?k = "join '':'' (drop 2 (split CHR '':'' fullKey))"
  obtain v w1 where g: "cache_get E ?k w = (v, w1)"
    by (cases "cache_get E ?k w")
  have k1: "orderly E w w1"
    using g by (rule orderly_cache_get)
  have a: "orderly E w (snd (database_fallback E ?k w1 restored))"
    using k1 database_fallback_orderly by (rule orderly_trans)
  have b: "\<And>p. orderly E w (snd (restore_parsed E ?k p w1 restored))"
    using k1 restore_parsed_orderly by (rule orderly_trans)
  show ?thesis
    using g k1 a b
    by (auto simp: restore_key_def Let_def split: option.splits payload.splits)
qed

lemma restore_keys_orderly: "orderly E w (snd (restore_keys E ks w restored))"
proof (induction ks arbitrary: w restored)
  case Nil
  show ?case by simp
next
  case (Cons fullKey ks)
  obtain n1 w1 where r: "restore_key E fullKey w restored = (n1, w1)"
    by (cases "restore_key E fullKey w restored")
  have "orderly E w w1"
    using restore_key_orderly [of E w fullKey restored] r by simp
  then have "orderly E w (snd (restore_keys E ks w1 n1))"
    using Cons.IH by (rule orderly_trans)
  with r show ?case by simp
qed

lemma restoreFromRedisCache_orderly: "orderly E w (snd (restoreFromRedisCache E w))"
proof -
  let ?w0 = "emit (Info ''Attempting to restore sessions from Redis cache'') w"
  obtain n r1 where c: "cleanupCorruptedKeys (conf E) (cache ?w0) = (n, r1)"
    by (cases "cleanupCorruptedKeys (conf E) (cache ?w0)")
  obtain ks r2 where k: "keys_cache (conf E) r1 (Some []) = (ks, r2)"
    by (cases "keys_cache (conf E) r1 (Some [])")
  have "tidy (conf E) (cache w) r1"
    using cleanupCorruptedKeys_tidy [of "conf E" "cache w"] c by simp
  moreover have "tidy (conf E) r1 r2"
    using keys_cache_tidy [of "conf E" r1 "Some []"] k by (metis snd_conv)
  ultimately have "tidy (conf E) (cache w) r2"
    by (rule tidy_trans)
  then have o: "orderly E w (?w0\<lparr>cache := r2\<rparr>)"
    by (simp add: orderly_def)
  then have "\<And>ks. orderly E w (snd (restore_keys E ks (?w0\<lparr>cache := r2\<rparr>) 0))"
    using restore_keys_orderly by (rule orderly_trans)
  with o c k show ?thesis
    by (auto simp: restoreFromRedisCache_def Let_def split: option.splits)
qed

lemma verify_names_orderly: "orderly E w (verify_names E ns w)"
proof (induction ns arbitrary: w)
  case Nil
  show ?case by simp
next
  case (Cons name ns)
  obtain v w1 where g: "cache_get E (''restored:'' @ name) w = (v, w1)"
    by (cases "cache_get E (''restored:'' @ name) w")
  have o1: "orderly E w w1"
    using g by (rule orderly_cache_get)
  have step: "verify_names E (name # ns) w =
      verify_names E ns (if truthy v then emit (ScheduleVerification name 10000) w1 else w1)"
    using g by (simp del: append.simps)
  have "orderly E w (if truthy v then emit (ScheduleVerification name 10000) w1 else w1)"
    using o1 by (simp add: orderly_def)
  then show ?case
    unfolding step using Cons.IH by (rule orderly_trans)
qed

lemma restoreAllSessions_orderly: "orderly E w (snd (restoreAllSessions E w))"
proof -
  have c: "orderly E w (snd (cache_stage E w))"
    by (simp add: cache_stage_def restoreFromRedisCache_orderly)
  have "orderly E (snd (cache_stage E w)) (snd (database_stage E w))"
    by (simp add: database_stage_def restoreFromDatabase_orderly)
  with c have d: "orderly E w (snd (database_stage E w))"
    by (rule orderly_trans)
  then have p: "orderly E w (snd (restoreFromProviderFiles (snd (database_stage E w))))"
    by (simp add: restoreFromProviderFiles_def orderly_def)
  show ?thesis
    using d p verify_names_orderly
    by (auto simp: restoreAllSessions_stages verifyRestoredConnections_def intro: orderly_trans)
qed

text \<open>The shutdown and the health sweep.\<close>

lemma save_all_orderly: "orderly E w (foldl (save_one E) w ns)"
proof (induction ns arbitrary: w)
  case Nil
  show ?case by simp
next
  case (Cons n ns)
  have "\<And>d. orderly E w (persistInstanceState E n d (read_status E n w))"
    using persist_orderly [of E "read_status E n w" n] by (simp add: orderly_def)
  then have "orderly E w (save_one E w n)"
    by (simp add: save_one_def split: option.splits)
  then show ?case
    using Cons.IH [of "save_one E w n"] by (auto intro: orderly_trans)
qed

lemma initiateShutdown_orderly: "orderly E w (snd (initiateShutdown E w))"
proof -
  have "\<And>ns ms. orderly E w
      (foldl close_one (foldl (save_one E) (emit StopHealthMonitoring (w\<lparr>isShuttingDown := True\<rparr>)) ns) ms)"
    using save_all_orderly [of E "emit StopHealthMonitoring (w\<lparr>isShuttingDown := True\<rparr>)"]
    by (simp add: orderly_def)
  then show ?thesis
    by (auto simp: initiateShutdown_def performGracefulShutdown_def stopHealthMonitoring_def
        closeAllConnections_def saveAllInstanceStates_def orderly_same split: sum.splits)
qed

lemma handlers_cache [simp]:
  "cache (handleConnectionMismatch name w) = cache w"
  "cache (handleConnectionFailure name w) = cache w"
  "cache (correctFalseDisconnection E name w) = cache w"
  by (simp_all add: handleConnectionMismatch_def handleConnectionFailure_def
      correctFalseDisconnection_def Let_def split: option.splits)

lemma check_connecting_orderly: "orderly E w (check_connecting E name w)"
proof -
  obtain t w1 where g: "getConnectingTime E name w = (t, w1)"
    by (cases "getConnectingTime E name w")
  have o1: "orderly E w w1"
    using g by (auto simp: getConnectingTime_def split: prod.splits intro: orderly_cache_get)
  have "orderly E w1 (handleConnectionTimeout E name w1)"
    using orderly_cache_delete [of E "close_ws name w1" "''connecting_time:'' @ name"]
    by (simp add: handleConnectionTimeout_def clearConnectingTime_def orderly_def
        del: append.simps)
  with o1 have "orderly E w (handleConnectionTimeout E name w1)"
    by (rule orderly_trans)
  with g o1 show ?thesis
    by (auto simp: check_connecting_def split: option.splits)
qed

lemma checkInstanceHealth_orderly: "orderly E w (checkInstanceHealth E name w)"
proof -
  let ?w1 = "read_status E name w"
  have c: "\<And>w' :: world. cache w' = cache w \<Longrightarrow> orderly E w (check_closed E name w')"
  proof -
    fix w' :: world
    assume e: "cache w' = cache w"
    have "orderly E w' (check_closed E name w')"
      by (auto simp: check_closed_def check_connecting_orderly orderly_same split: option.splits)
    then show "orderly E w (check_closed E name w')"
      using e by (simp add: orderly_def)
  qed
  have "orderly E w (check_closed E name ?w1)"
    "orderly E w (check_closed E name (handleConnectionFailure name ?w1))"
    "orderly E w (handleConnectionMismatch name ?w1)"
    by (simp_all add: c orderly_same)
  then show ?thesis
    by (auto simp: checkInstanceHealth_def Let_def split: option.splits)
qed

lemma performHealthChecks_orderly: "orderly E w (performHealthChecks E w)"
proof -
  have "\<And>ns. orderly E w (foldl (\<lambda>w name. checkInstanceHealth E name w) w ns)"
  proof -
    fix ns
    show "orderly E w (foldl (\<lambda>w name. checkInstanceHealth E name w) w ns)"
    proof (induction ns arbitrary: w)
      case Nil
      show ?case by simp
    next
      case (Cons n ns)
      show ?case
        using checkInstanceHealth_orderly [of E w n] Cons.IH [of "checkInstanceHealth E n w"]
        by (auto intro: orderly_trans)
    qed
  qed
  then show ?thesis by (simp add: performHealthChecks_def)
qed

text \<open>
  C5. With the remote cache enabled for session storage, a persist of an instance record
  sends no write with an expiry, and when the cache is reachable the record is in the
  store afterwards without expiration. Writes with an expiry go to transient keys only:
  whatever the subsystem does (a persist, the start of a connect, the restoration of one
  instance, the availability probe, a whole restoration run, a health sweep, a
  shutdown), every command with an expiry that it sends to the cache writes a key of the
  restoration marker, of the connect-start marker or of the test entry of the
  availability probe. These are written with a finite TTL: the connect-start marker and
  the restoration marker with 300 seconds, the test entry with 5.
\<close>

theorem C5_primary_record_never_expires:
  "(REDIS_ENABLED E \<and> SAVE_INSTANCES E \<longrightarrow>
      filter expiring (log (cache (persistInstanceState E name d w))) =
        filter expiring (log (cache w)) \<and>
      (up (cache w) \<longrightarrow>
         map_of (store (cache (persistInstanceState E name d w)))
           (buildKey (conf E) (cacheKey_of name d)) =
         Some \<lparr>val = RString (PData d), expiry = None\<rparr>)) \<and>
   orderly E w (persistInstanceState E name d w) \<and>
   orderly E w (setConnectingTime E name w) \<and>
   orderly E w (snd (restoreInstance E d w)) \<and>
   orderly E w (snd (checkCacheAvailability E name w)) \<and>
   orderly E w (snd (restoreAllSessions E w)) \<and>
   orderly E w (performHealthChecks E w) \<and>
   orderly E w (snd (initiateShutdown E w)) \<and>
   (up (cache w) \<longrightarrow>
      map_of (store (cache (setConnectingTime E name w)))
        (buildKey (conf E) (''connecting_time:'' @ name)) =
      Some \<lparr>val = RString (PText (toString (now E))), expiry = Some 300\<rparr>) \<and>
   (up (cache w) \<and> instanceName d \<noteq> [] \<and> lookup (waInstances w) (instanceName d) = Undefined \<and>
    init E d \<noteq> None \<and> connect_ok E (instanceName d) \<longrightarrow>
      map_of (store (cache (snd (restoreInstance E d w))))
        (buildKey (conf E) (''restored:'' @ instanceName d)) =
      Some \<lparr>val = RString (PText ''true''), expiry = Some 300\<rparr>) \<and>
   CSetEx (buildKey (conf E) (''test:'' @ name @ '':'' @ toString (now E))) 5 (PText ''test'') \<in>
     set (log (cache (snd (checkCacheAvailability E name w))))"
proof (intro conjI impI)
  assume a: "REDIS_ENABLED E \<and> SAVE_INSTANCES E"
  show "filter expiring (log (cache (persistInstanceState E name d w))) =
          filter expiring (log (cache w))"
    by (simp add: persist_cache [OF a] set_cache_log_no_ttl)
  assume "up (cache w)"
  then show "map_of (store (cache (persistInstanceState E name d w)))
           (buildKey (conf E) (cacheKey_of name d)) =
         Some \<lparr>val = RString (PData d), expiry = None\<rparr>"
    by (simp add: persist_cache [OF a] set_cache_stored write_expiry_def)
next
  show "orderly E w (persistInstanceState E name d w)"
    by (rule persist_orderly)
  show "orderly E w (setConnectingTime E name w)"
    by (rule setConnectingTime_orderly)
  show "orderly E w (snd (restoreInstance E d w))"
    by (rule restoreInstance_orderly)
  show "orderly E w (snd (checkCacheAvailability E name w))"
    by (rule checkCacheAvailability_orderly)
  show "orderly E w (snd (restoreAllSessions E w))"
    by (rule restoreAllSessions_orderly)
  show "orderly E w (performHealthChecks E w)"
    by (rule performHealthChecks_orderly)
  show "orderly E w (snd (initiateShutdown E w))"
    by (rule initiateShutdown_orderly)
  show "CSetEx (buildKey (conf E) (''test:'' @ name @ '':'' @ toString (now E))) 5 (PText ''test'') \<in>
     set (log (cache (snd (checkCacheAvailability E name w))))"
    by (rule probe_write_logged)
next
  assume "up (cache w)"
  then show "map_of (store (cache (setConnectingTime E name w)))
        (buildKey (conf E) (''connecting_time:'' @ name)) =
      Some \<lparr>val = RString (PText (toString (now E))), expiry = Some 300\<rparr>"
    by (simp add: setConnectingTime_def set_cache_stored write_expiry_def ttl_or_default_def)
next
  assume a: "up (cache w) \<and> instanceName d \<noteq> [] \<and>
    lookup (waInstances w) (instanceName d) = Undefined \<and>
    init E d \<noteq> None \<and> connect_ok E (instanceName d)"
  then obtain i where "init E d = Some i" by blast
  with a have "cache (snd (restoreInstance E d w)) =
           snd (set_cache (conf E) (cache w) (''restored:'' @ instanceName d) (PText ''true'') (Some 300))"
    by (intro restoreInstance_registers) simp_all
  with a show "map_of (store (cache (snd (restoreInstance E d w))))
        (buildKey (conf E) (''restored:'' @ instanceName d)) =
      Some \<lparr>val = RString (PText ''true''), expiry = Some 300\<rparr>"
    by (simp add: set_cache_stored write_expiry_def ttl_or_default_def)
qed

theorem C5_primary_record_never_expires_witness:
  "REDIS_ENABLED sample_env \<and> SAVE_INSTANCES sample_env \<and> up (cache false_close_world) \<and>
   instanceName alpha_data \<noteq> [] \<and>
   lookup (waInstances empty_world) (instanceName alpha_data) = Undefined \<and>
   init sample_env alpha_data \<noteq> None \<and> connect_ok sample_env (instanceName alpha_data) \<and>
   up (cache empty_world) \<and>
   map_of (store (cache (persistInstanceState sample_env ''alpha'' alpha_data false_close_world)))
     ''evolution_cache:instance:id1'' = Some \<lparr>val = RString (PData alpha_data), expiry = None\<rparr> \<and>
   filter expiring (log (cache (persistInstanceState sample_env ''alpha'' alpha_data false_close_world)))
     = [] \<and>
   map_of (store (cache (setConnectingTime sample_env ''alpha'' false_close_world)))
     ''evolution_cache:instance:connecting_time:alpha'' =
     Some \<lparr>val = RString (PText (toString (now sample_env))), expiry = Some 300\<rparr> \<and>
   map_of (store (cache (snd (restoreInstance sample_env alpha_data empty_world))))
     ''evolution_cache:instance:restored:alpha'' =
     Some \<lparr>val = RString (PText ''true''), expiry = Some 300\<rparr>"
proof -
  have h1: "REDIS_ENABLED sample_env \<and> SAVE_INSTANCES sample_env \<and> up (cache false_close_world) \<and>
      up (cache empty_world) \<and> log (cache false_close_world) = []"
    by (simp add: sample_env_def false_close_world_def empty_redis_def empty_world_def)
  have h2: "instanceName alpha_data \<noteq> [] \<and>
      lookup (waInstances empty_world) (instanceName alpha_data) = Undefined \<and>
      init sample_env alpha_data \<noteq> None \<and> connect_ok sample_env (instanceName alpha_data)"
    by (simp add: alpha_data_def data_of_instance_def empty_world_def sample_env_def
        lookup_def inherited_def prototype_names_def)
  have h3: "buildKey (conf sample_env) (cacheKey_of ''alpha'' alpha_data) = ''evolution_cache:instance:id1'' \<and>
      buildKey (conf sample_env) (''connecting_time:'' @ ''alpha'') =
        ''evolution_cache:instance:connecting_time:alpha'' \<and>
      buildKey (conf sample_env) (''restored:'' @ instanceName alpha_data) =
        ''evolution_cache:instance:restored:alpha''"
    by (simp add: buildKey_def sample_env_def sample_conf_def cacheKey_of_def alpha_data_def
        data_of_instance_def alpha_closed_def)
  show ?thesis
    using h1 h2 h3
      C5_primary_record_never_expires [of sample_env "''alpha''" alpha_data false_close_world]
      C5_primary_record_never_expires [of sample_env "''alpha''" alpha_data empty_world]
    by simp
qed

end
